theory Spec2Isabelle
  imports Main
begin

section \<open>Data model of \<open>src/app.js\<close>\<close>

text \<open>
  The controller class \<open>AIVIAApp\<close> owns a role catalog, a list of canned responses, the
  session object \<open>this.state\<close> and the timer handles \<open>this.timers\<close>. Strings are byte strings;
  the icons and labels outside ASCII are written as their UTF-8 bytes.
\<close>

record role =
  role_id :: string
  role_name :: string
  description :: string
  color :: string
  icon :: string
  questions :: "string list"

record file_obj =
  file_name :: string
  file_type :: string
  file_size :: nat

record interview_state =
  currentScreen :: string
  selectedRole :: "role option"
  uploadedFile :: "file_obj option"
  interviewActive :: bool
  currentQuestionIndex :: nat
  interviewStartTime :: "nat option"
  interviewDuration :: int
  avatarState :: string
  isMuted :: bool

record timer_handles =
  h_interview :: "nat option"
  h_avatar :: "nat option"
  h_setup :: "nat option"

text \<open>
  The functions handed to \<open>setTimeout\<close> and \<open>setInterval\<close>, one constructor per arrow
  function of the source, carrying the variables the closure captures.
\<close>

datatype callback =
    CbShowResumeUpload
  | CbProgressInterval file_obj nat
  | CbCompleteUpload file_obj
  | CbProcessStep nat
  | CbStartVoiceInterview
  | CbInterviewClock
  | CbQuestionSpoken
  | CbUserSpoke
  | CbResponseSpoken
  | CbHideError

record timer =
  tid :: nat
  due :: nat
  period :: "nat option"
  cb :: callback

text \<open>
  The page. \<open>index.html\<close> is not part of the sources, so the document is a parameter:
  \<open>present\<close> lists the element ids (and, for nested lookups, the selector paths) that
  resolve to an element, \<open>screens\<close> the ids of the elements of class \<open>screen\<close>.
  \<open>cards\<close> are the role cards with their \<open>data-role\<close> attribute and whether they carry the
  class \<open>selected\<close>.
\<close>

record dom =
  present :: "string list"
  screens :: "string list"
  classes :: "string \<Rightarrow> string list"
  textContent :: "string \<Rightarrow> string"
  disabled :: "string \<Rightarrow> bool"
  input_value :: "string \<Rightarrow> string"
  cards :: "(string \<times> bool) list"

text \<open>
  The running application: the controller's fields, the page, and the browser's timer
  queue with a millisecond clock (\<open>Date.now()\<close>). \<open>Math.random()\<close> reads the next value of
  the sequence \<open>rng\<close>.
\<close>

record app =
  state :: interview_state
  timers :: timer_handles
  doc :: dom
  now :: nat
  pending :: "timer list"
  next_id :: nat
  rng :: "nat \<Rightarrow> nat"
  draws :: nat

definition jobRoles :: "role list" where
  "jobRoles =
   [\<lparr>role_id = ''SDE'', role_name = ''Software Development Engineer'',
     description = ''Algorithm & system design focused interview'',
     color = ''#3B82F6'', icon = [CHR 0xF0, CHR 0x9F, CHR 0x92, CHR 0xBB],
     questions =
      [''Tell me about a challenging algorithm problem you've solved recently?'',
       ''How would you design a scalable web crawler?'',
       ''What's your approach to code reviews and quality?'',
       ''Explain the time complexity of your favorite sorting algorithm.'']\<rparr>,
    \<lparr>role_id = ''Data Analysis'', role_name = ''Data Analyst'',
     description = ''Analytics & insights focused interview'',
     color = ''#10B981'', icon = [CHR 0xF0, CHR 0x9F, CHR 0x93, CHR 0x8A],
     questions =
      [''Walk me through a data analysis project where you discovered insights?'',
       ''How do you handle missing data in your analysis?'',
       ''What visualization would you use for time series data?'',
       ''Explain your approach to A/B testing.'']\<rparr>,
    \<lparr>role_id = ''Full Stack'', role_name = ''Full Stack Developer'',
     description = ''End-to-end development interview'',
     color = ''#8B5CF6'', icon = [CHR 0xF0, CHR 0x9F, CHR 0x94, CHR 0xA7],
     questions =
      [''Describe a full-stack project you've built from scratch?'',
       ''How do you decide between different technology stacks?'',
       ''What's your approach to API design?'',
       ''How do you handle state management in complex applications?'']\<rparr>,
    \<lparr>role_id = ''Backend'', role_name = ''Backend Developer'',
     description = ''Server-side & architecture interview'',
     color = ''#EF4444'',
     icon = [CHR 0xE2, CHR 0x9A, CHR 0x99, CHR 0xEF, CHR 0xB8, CHR 0x8F],
     questions =
      [''Tell me about a scalable system or API you've designed?'',
       ''How do you approach database optimization?'',
       ''Explain your strategy for handling high traffic?'',
       ''What's your experience with microservices?'']\<rparr>,
    \<lparr>role_id = ''Frontend'', role_name = ''Frontend Developer'',
     description = ''UI/UX & client-side interview'',
     color = ''#F59E0B'', icon = [CHR 0xF0, CHR 0x9F, CHR 0x8E, CHR 0xA8],
     questions =
      [''Describe a complex UI component you've built?'',
       ''How do you optimize frontend performance?'',
       ''What's your approach to responsive design?'',
       ''Explain your experience with modern frameworks.'']\<rparr>,
    \<lparr>role_id = ''DevOps'', role_name = ''DevOps Engineer'',
     description = ''Infrastructure & automation interview'',
     color = ''#6366F1'', icon = [CHR 0xF0, CHR 0x9F, CHR 0x9A, CHR 0x80],
     questions =
      [''Walk me through a CI/CD pipeline you've implemented?'',
       ''How do you approach infrastructure as code?'',
       ''What's your experience with container orchestration?'',
       ''Explain your monitoring and alerting strategy.'']\<rparr>]"

definition mockResponses :: "string list" where
  "mockResponses =
   [''That's an interesting approach. Can you elaborate on the technical challenges?'',
    ''I see you have experience with that technology. How did you handle scalability?'',
    ''Great! Now let's dive deeper into the implementation details.'',
    ''That's a solid solution. What alternative approaches did you consider?'',
    ''Excellent point. How would you improve this in a production environment?'']"

definition initial_state :: interview_state where
  "initial_state =
   \<lparr>currentScreen = ''role-selection'', selectedRole = None, uploadedFile = None,
    interviewActive = False, currentQuestionIndex = 0, interviewStartTime = None,
    interviewDuration = 0, avatarState = ''ready'', isMuted = False\<rparr>"

definition no_timers :: timer_handles where
  "no_timers = \<lparr>h_interview = None, h_avatar = None, h_setup = None\<rparr>"

section \<open>The browser: document access, timers, clock, random numbers\<close>

definition has :: "string \<Rightarrow> app \<Rightarrow> bool" where
  "has e a \<longleftrightarrow> e \<in> set (present (doc a))"

text \<open>\<open>if (el) ...\<close>: act on an element only when the lookup found it.\<close>

definition on :: "string \<Rightarrow> (app \<Rightarrow> app) \<Rightarrow> app \<Rightarrow> app" where
  "on e f a = (if has e a then f a else a)"

text \<open>Statements in sequence.\<close>

definition seq :: "(app \<Rightarrow> app) list \<Rightarrow> app \<Rightarrow> app" where
  "seq fs a = foldl (\<lambda>x f. f x) a fs"

text \<open>A class list holds each token once: \<open>add\<close> appends a missing token, \<open>remove\<close> drops it.\<close>

definition add_class :: "string \<Rightarrow> string list \<Rightarrow> string list" where
  "add_class c cs = (if c \<in> set cs then cs else cs @ [c])"

definition remove_class :: "string \<Rightarrow> string list \<Rightarrow> string list" where
  "remove_class c cs = filter (\<lambda>x. x \<noteq> c) cs"

definition classList_add :: "string \<Rightarrow> string \<Rightarrow> app \<Rightarrow> app" where
  "classList_add e c a =
     a\<lparr>doc := (doc a)\<lparr>classes := (classes (doc a))(e := add_class c (classes (doc a) e))\<rparr>\<rparr>"

definition classList_remove :: "string \<Rightarrow> string \<Rightarrow> app \<Rightarrow> app" where
  "classList_remove e c a =
     a\<lparr>doc := (doc a)\<lparr>classes := (classes (doc a))(e := remove_class c (classes (doc a) e))\<rparr>\<rparr>"

definition set_className :: "string \<Rightarrow> string list \<Rightarrow> app \<Rightarrow> app" where
  "set_className e cs a = a\<lparr>doc := (doc a)\<lparr>classes := (classes (doc a))(e := cs)\<rparr>\<rparr>"

definition set_textContent :: "string \<Rightarrow> string \<Rightarrow> app \<Rightarrow> app" where
  "set_textContent e t a =
     a\<lparr>doc := (doc a)\<lparr>textContent := (textContent (doc a))(e := t)\<rparr>\<rparr>"

definition set_disabled :: "string \<Rightarrow> bool \<Rightarrow> app \<Rightarrow> app" where
  "set_disabled e b a = a\<lparr>doc := (doc a)\<lparr>disabled := (disabled (doc a))(e := b)\<rparr>\<rparr>"

definition set_value :: "string \<Rightarrow> string \<Rightarrow> app \<Rightarrow> app" where
  "set_value e v a = a\<lparr>doc := (doc a)\<lparr>input_value := (input_value (doc a))(e := v)\<rparr>\<rparr>"

text \<open>
  \<open>setTimeout\<close> and \<open>setInterval\<close> append a timer to the queue and return its handle; both
  draw handles from one counter, and \<open>clearTimeout\<close> and \<open>clearInterval\<close> remove the
  timer with the given handle, whichever kind it is.
\<close>

definition setTimeout :: "callback \<Rightarrow> nat \<Rightarrow> app \<Rightarrow> nat \<times> app" where
  "setTimeout c d a =
     (next_id a,
      a\<lparr>pending := pending a @ [\<lparr>tid = next_id a, due = now a + d, period = None, cb = c\<rparr>],
        next_id := next_id a + 1\<rparr>)"

definition setInterval :: "callback \<Rightarrow> nat \<Rightarrow> app \<Rightarrow> nat \<times> app" where
  "setInterval c d a =
     (next_id a,
      a\<lparr>pending := pending a @ [\<lparr>tid = next_id a, due = now a + d, period = Some d, cb = c\<rparr>],
        next_id := next_id a + 1\<rparr>)"

definition clearTimeout :: "nat \<Rightarrow> app \<Rightarrow> app" where
  "clearTimeout i a = a\<lparr>pending := filter (\<lambda>t. tid t \<noteq> i) (pending a)\<rparr>"

definition clearInterval :: "nat \<Rightarrow> app \<Rightarrow> app" where
  "clearInterval i a = a\<lparr>pending := filter (\<lambda>t. tid t \<noteq> i) (pending a)\<rparr>"

text \<open>
  \<open>Math.random()\<close> returns \<open>u / random_scale\<close> for the next \<open>u\<close> of the sequence, a number
  in \<open>[0, 1)\<close>; the model keeps the numerator.
\<close>

definition random_scale :: nat where
  "random_scale = 2 ^ 53"

definition Math_random :: "app \<Rightarrow> nat \<times> app" where
  "Math_random a = (rng a (draws a) mod random_scale, a\<lparr>draws := draws a + 1\<rparr>)"

text \<open>
  The numbers of the source are IEEE 754 doubles. Those computed from \<open>Math.random()\<close> are
  multiples of \<open>1 / random_scale\<close> below \<open>2 ^ 53\<close>, and the model keeps their numerators.
  Every arithmetic operation of the source rounds its exact result to 53 significant bits,
  to the nearest double, a tie to the even one: \<open>excess p\<close> is the number of low bits of the
  numerator \<open>p\<close> that do not fit, and \<open>to_double p\<close> is the numerator of the rounded result.
\<close>

function excess :: "nat \<Rightarrow> nat" where
  "excess p = (if p < 2 ^ 53 then 0 else Suc (excess (p div 2)))"
  by pat_completeness auto
termination
  by (relation "measure (\<lambda>p. p)") auto

declare excess.simps [simp del]

definition round_even :: "nat \<Rightarrow> nat \<Rightarrow> nat" where
  "round_even s p =
     (if s = 0 then p
      else let q = p div 2 ^ s; r = p mod 2 ^ s; h = 2 ^ (s - 1)
           in (if r > h \<or> (r = h \<and> odd q) then q + 1 else q) * 2 ^ s)"

definition to_double :: "nat \<Rightarrow> nat" where
  "to_double p = round_even (excess p) p"

section \<open>Number formatting\<close>

definition digit :: "nat \<Rightarrow> char" where
  "digit n = char_of (48 + n)"

function show_nat :: "nat \<Rightarrow> string" where
  "show_nat n = (if n < 10 then [digit n] else show_nat (n div 10) @ [digit (n mod 10)])"
  by pat_completeness auto
termination
  by (relation "measure (\<lambda>n. n)") auto

declare show_nat.simps [simp del]

definition show_int :: "int \<Rightarrow> string" where
  "show_int i = (if i < 0 then CHR ''-'' # show_nat (nat (- i)) else show_nat (nat i))"

definition padStart2 :: "string \<Rightarrow> string" where
  "padStart2 s = replicate (2 - length s) CHR ''0'' @ s"

text \<open>JavaScript's \<open>%\<close> takes the sign of the dividend.\<close>

definition js_rem :: "int \<Rightarrow> int \<Rightarrow> int" where
  "js_rem x y = (if x < 0 then - ((- x) mod y) else x mod y)"

definition formatDuration :: "int \<Rightarrow> string" where
  "formatDuration milliseconds =
     (let seconds = milliseconds div 1000;
          minutes = seconds div 60;
          remainingSeconds = js_rem seconds 60
      in padStart2 (show_int minutes) @ '':'' @ padStart2 (show_int remainingSeconds))"

section \<open>The controller\<close>

text \<open>
  Not modelled, being presentation only or floating point: \<open>console.log\<close>, the markup that
  \<open>renderRoles\<close> writes into a card, the drag-and-drop highlighting, the cursor style, the
  widths of the two progress bars, the rounded percentage text of the upload and
  \<open>formatFileSize\<close> (a floating-point logarithm).
\<close>

definition showScreen :: "string \<Rightarrow> app \<Rightarrow> app" where
  "showScreen screenId a =
     (let a1 = foldl (\<lambda>x s. classList_remove s ''active'' x) a (screens (doc a))
      in if has screenId a1
         then (classList_add screenId ''active'' a1)
                \<lparr>state := (state a1)\<lparr>currentScreen := screenId\<rparr>\<rparr>
         else a1)"

definition hideError :: "app \<Rightarrow> app" where
  "hideError a = on ''error-toast'' (classList_add ''error-toast'' ''hidden'') a"

definition showError :: "string \<Rightarrow> app \<Rightarrow> app" where
  "showError message a =
     seq [on ''error-message'' (set_textContent ''error-message'' message),
          on ''error-toast'' (classList_remove ''error-toast'' ''hidden''),
          (\<lambda>x. snd (setTimeout CbHideError 5000 x))] a"

text \<open>
  \<open>setAvatarState\<close> stores any string it is given; the controller calls it with the
  literals \<open>ready\<close>, \<open>listening\<close> and \<open>speaking\<close> only.
\<close>

definition setAvatarState :: "string \<Rightarrow> app \<Rightarrow> app" where
  "setAvatarState s a =
     seq [(\<lambda>x. x\<lparr>state := (state x)\<lparr>avatarState := s\<rparr>\<rparr>),
          on ''avatar-ball''
            (seq [set_className ''avatar-ball'' [''avatar-ball''],
                  (\<lambda>x. if s \<noteq> ''ready'' then classList_add ''avatar-ball'' s x else x)]),
          on ''avatar-status''
            (\<lambda>x. if s = ''ready'' then set_textContent ''avatar-status'' ''Ready for interview'' x
                  else if s = ''listening'' then set_textContent ''avatar-status'' ''Listening...'' x
                  else if s = ''speaking''
                       then set_textContent ''avatar-status'' ''AI is speaking...'' x
                  else x)] a"

definition getCurrentQuestions :: "app \<Rightarrow> string list" where
  "getCurrentQuestions a =
     (case selectedRole (state a) of Some r \<Rightarrow> questions r | None \<Rightarrow> [])"

definition updateInterviewProgress :: "app \<Rightarrow> app" where
  "updateInterviewProgress a =
     (if selectedRole (state a) \<noteq> None
      then let total = length (getCurrentQuestions a);
               current = currentQuestionIndex (state a) + 1
           in seq [on ''current-question'' (set_textContent ''current-question'' (show_nat current)),
                   on ''total-questions'' (set_textContent ''total-questions'' (show_nat total))] a
      else a)"

text \<open>
  \<open>updateCurrentQuestion(text)\<close>: the argument is optional, and an empty string counts as
  absent (\<open>if (text)\<close>).
\<close>

definition updateCurrentQuestion :: "string option \<Rightarrow> app \<Rightarrow> app" where
  "updateCurrentQuestion text a =
     on ''current-question-text''
       (\<lambda>x. let otherwise =
               (if selectedRole (state x) \<noteq> None
                   \<and> currentQuestionIndex (state x) < length (getCurrentQuestions x)
                then set_textContent ''current-question-text''
                       (getCurrentQuestions x ! currentQuestionIndex (state x)) x
                else x)
             in case text of
                  None \<Rightarrow> otherwise
                | Some t \<Rightarrow>
                    if t \<noteq> [] then set_textContent ''current-question-text'' t x
                    else otherwise) a"

text \<open>
  \<open>clearTimers\<close> walks the three handles of \<open>this.timers\<close>; a handle is cleared when it is
  truthy, that is neither \<open>null\<close> nor \<open>0\<close>.
\<close>

definition clear_handle :: "nat option \<Rightarrow> app \<Rightarrow> app" where
  "clear_handle h a =
     (case h of None \<Rightarrow> a
      | Some i \<Rightarrow> if i \<noteq> 0 then clearInterval i (clearTimeout i a) else a)"

definition clearTimers :: "app \<Rightarrow> app" where
  "clearTimers a =
     (seq [clear_handle (h_interview (timers a)), clear_handle (h_avatar (timers a)),
           clear_handle (h_setup (timers a))] a)\<lparr>timers := no_timers\<rparr>"

subsection \<open>Role selection\<close>

definition renderRoles :: "app \<Rightarrow> app" where
  "renderRoles a =
     (if \<not> has ''roles-grid'' a then a
      else a\<lparr>doc := (doc a)\<lparr>cards := map (\<lambda>r. (role_id r, False)) jobRoles\<rparr>\<rparr>)"

definition deselect_all :: "app \<Rightarrow> app" where
  "deselect_all a = a\<lparr>doc := (doc a)\<lparr>cards := map (\<lambda>c. (fst c, False)) (cards (doc a))\<rparr>\<rparr>"

text \<open>\<open>querySelector\<close> returns the first match: only the first card of that role is marked.\<close>

fun select_first :: "string \<Rightarrow> (string \<times> bool) list \<Rightarrow> (string \<times> bool) list" where
  "select_first r [] = []"
| "select_first r (c # cs) = (if fst c = r then (fst c, True) # cs else c # select_first r cs)"

definition selectRole :: "role \<Rightarrow> app \<Rightarrow> app" where
  "selectRole r a =
     seq [deselect_all,
          (\<lambda>x. x\<lparr>doc := (doc x)\<lparr>cards := select_first (role_id r) (cards (doc x))\<rparr>\<rparr>),
          (\<lambda>x. x\<lparr>state := (state x)\<lparr>selectedRole := Some r\<rparr>\<rparr>),
          (\<lambda>x. snd (setTimeout CbShowResumeUpload 800 x))] a"

subsection \<open>File upload\<close>

definition validTypes :: "string list" where
  "validTypes =
     [''application/pdf'',
      ''application/vnd.openxmlformats-officedocument.wordprocessingml.document'',
      ''application/msword'']"

text \<open>
  \<open>toLowerCase\<close> on the bytes of the name: the letters \<open>A\<close> to \<open>Z\<close> are mapped, every other
  byte is kept. No character outside ASCII lower-cases to a letter of the three endings, so
  the \<open>endsWith\<close> tests below come out as in JavaScript.
\<close>

definition lower_char :: "char \<Rightarrow> char" where
  "lower_char c =
     (let n = (of_char c :: nat) in if 65 \<le> n \<and> n \<le> 90 then char_of (n + 32) else c)"

definition toLowerCase :: "string \<Rightarrow> string" where
  "toLowerCase s = map lower_char s"

definition endsWith :: "string \<Rightarrow> string \<Rightarrow> bool" where
  "endsWith s suf \<longleftrightarrow> length suf \<le> length s \<and> drop (length s - length suf) s = suf"

definition isValidType :: "file_obj \<Rightarrow> bool" where
  "isValidType f \<longleftrightarrow>
     file_type f \<in> set validTypes
     \<or> endsWith (toLowerCase (file_name f)) ''.pdf''
     \<or> endsWith (toLowerCase (file_name f)) ''.docx''
     \<or> endsWith (toLowerCase (file_name f)) ''.doc''"

definition maxSize :: nat where
  "maxSize = 10 * 1024 * 1024"

definition showUploadProgress :: "file_obj \<Rightarrow> app \<Rightarrow> app" where
  "showUploadProgress f a =
     (if \<not> has ''upload-area'' a \<or> \<not> has ''upload-progress'' a
         \<or> \<not> has ''progress-fill'' a \<or> \<not> has ''progress-text'' a
      then a
      else seq [classList_add ''upload-area'' ''hidden'',
                classList_remove ''upload-progress'' ''hidden'',
                (\<lambda>x. snd (setInterval (CbProgressInterval f 0) 150 x))] a)"

definition handleFileUpload :: "file_obj \<Rightarrow> app \<Rightarrow> app" where
  "handleFileUpload f a =
     (if \<not> isValidType f then showError ''Please upload a PDF or DOCX file'' a
      else if file_size f > maxSize then showError ''File size must be less than 10MB'' a
      else showUploadProgress f a)"

definition completeUpload :: "file_obj \<Rightarrow> app \<Rightarrow> app" where
  "completeUpload f a =
     seq [on ''upload-progress'' (classList_add ''upload-progress'' ''hidden''),
          on ''file-info'' (classList_remove ''file-info'' ''hidden''),
          on ''file-name'' (set_textContent ''file-name'' (file_name f)),
          (\<lambda>x. x\<lparr>state := (state x)\<lparr>uploadedFile := Some f\<rparr>\<rparr>),
          on ''start-interview''
            (seq [set_disabled ''start-interview'' False,
                  classList_remove ''start-interview'' ''btn--outline'',
                  classList_add ''start-interview'' ''btn--primary''])] a"

text \<open>
  The body of the interval of \<open>showUploadProgress\<close>. \<open>progress\<close> is the closure's variable,
  counted in units of \<open>1 / random_scale\<close> percent. \<open>progress += 5 + Math.random() * 15\<close>
  rounds three times: the product, the sum with \<open>5\<close>, and the sum with \<open>progress\<close>.
  \<open>i\<close> is the interval's own handle \<open>progressInterval\<close>.
\<close>

definition progressTick :: "nat \<Rightarrow> file_obj \<Rightarrow> nat \<Rightarrow> app \<Rightarrow> app" where
  "progressTick i f progress a =
     (let (u, a1) = Math_random a;
          p1 = to_double (progress + to_double (5 * random_scale + to_double (u * 15)));
          p2 = (if p1 > 100 * random_scale then 100 * random_scale else p1)
      in if p2 \<ge> 100 * random_scale
         then snd (setTimeout (CbCompleteUpload f) 500 (clearInterval i a1))
         else a1\<lparr>pending := map (\<lambda>t. if tid t = i then t\<lparr>cb := CbProgressInterval f p2\<rparr> else t)
                                (pending a1)\<rparr>)"

definition removeFile :: "app \<Rightarrow> app" where
  "removeFile a =
     seq [on ''upload-area'' (classList_remove ''upload-area'' ''hidden''),
          on ''file-info'' (classList_add ''file-info'' ''hidden''),
          (\<lambda>x. x\<lparr>state := (state x)\<lparr>uploadedFile := None\<rparr>\<rparr>),
          on ''start-interview''
            (seq [set_disabled ''start-interview'' True,
                  classList_remove ''start-interview'' ''btn--primary'',
                  classList_add ''start-interview'' ''btn--outline'']),
          on ''file-input'' (set_value ''file-input'' [])] a"

subsection \<open>Setup sequence\<close>

definition steps :: "string list" where
  "steps = [''step-1'', ''step-2'', ''step-3'']"

text \<open>
  \<open>processStep\<close> with the closure's counter \<open>currentStep\<close> as an argument; the next call
  is scheduled with the incremented counter. The step icon of \<open>steps[currentStep - 1]\<close> is
  looked up inside the step element; an index past the array finds no element.
\<close>

definition processStep :: "nat \<Rightarrow> app \<Rightarrow> app" where
  "processStep currentStep a =
     (let a1 =
        (if currentStep > 0 \<and> currentStep - 1 < length steps
            \<and> has (steps ! (currentStep - 1)) a
         then on (steps ! (currentStep - 1) @ '' .step-icon'')
                (set_textContent (steps ! (currentStep - 1) @ '' .step-icon'')
                   [CHR 0xE2, CHR 0x9C, CHR 0x93]) a
         else a)
      in if currentStep < length steps
         then let a2 = on (steps ! currentStep)
                          (classList_add (steps ! currentStep) ''active'') a1;
                  (i, a3) = setTimeout (CbProcessStep (currentStep + 1)) 1500 a2
              in a3\<lparr>timers := (timers a3)\<lparr>h_setup := Some i\<rparr>\<rparr>
         else snd (setTimeout CbStartVoiceInterview 1000 a1))"

definition simulateSetupProcess :: "app \<Rightarrow> app" where
  "simulateSetupProcess a = processStep 0 a"

definition startInterviewSetup :: "app \<Rightarrow> app" where
  "startInterviewSetup a = seq [showScreen ''interview-setup'', simulateSetupProcess] a"

subsection \<open>Voice interview\<close>

definition startVoiceInterview :: "app \<Rightarrow> app" where
  "startVoiceInterview a =
     seq [showScreen ''voice-interview'',
          (\<lambda>x. case selectedRole (state x) of
                  Some r \<Rightarrow> on ''current-role'' (set_textContent ''current-role'' (role_name r)) x
                | None \<Rightarrow> x),
          updateInterviewProgress,
          updateCurrentQuestion None,
          setAvatarState ''ready''] a"

definition startInterviewTimer :: "app \<Rightarrow> app" where
  "startInterviewTimer a =
     (let (i, a1) = setInterval CbInterviewClock 1000 a
      in a1\<lparr>timers := (timers a1)\<lparr>h_interview := Some i\<rparr>\<rparr>)"

text \<open>
  The body of the interview clock. \<open>Date.now() - this.state.interviewStartTime\<close> reads
  \<open>null\<close> as \<open>0\<close>.
\<close>

definition interviewClock :: "app \<Rightarrow> app" where
  "interviewClock a =
     (let a1 = a\<lparr>state := (state a)\<lparr>interviewDuration :=
                  int (now a) - (case interviewStartTime (state a) of
                                   None \<Rightarrow> 0 | Some t \<Rightarrow> int t)\<rparr>\<rparr>
      in on ''interview-time''
           (set_textContent ''interview-time'' (formatDuration (interviewDuration (state a1)))) a1)"

definition beginQuestionFlow :: "app \<Rightarrow> app" where
  "beginQuestionFlow a =
     seq [setAvatarState ''speaking'',
          updateCurrentQuestion None,
          (\<lambda>x. snd (setTimeout CbQuestionSpoken 3000 x))] a"

text \<open>
  The delay \<open>10000 + Math.random() * 10000\<close> rounds twice, the product and the sum, and is
  cut to whole milliseconds by \<open>setTimeout\<close>.
\<close>

definition simulateInterviewFlow :: "app \<Rightarrow> app" where
  "simulateInterviewFlow a =
     (if \<not> interviewActive (state a) then a
      else let (u, a1) = Math_random a;
               speakingTime = to_double (10000 * random_scale + to_double (u * 10000))
           in snd (setTimeout CbUserSpoke (speakingTime div random_scale) a1))"

definition questionSpoken :: "app \<Rightarrow> app" where
  "questionSpoken a =
     (if interviewActive (state a)
      then seq [setAvatarState ''listening'', simulateInterviewFlow] a
      else a)"

text \<open>
  \<open>Math.floor(Math.random() * this.mockResponses.length)\<close> floors the rounded product; an
  index past the array reads \<open>undefined\<close>, which \<open>updateCurrentQuestion\<close> takes as no text.
\<close>

definition userSpoke :: "app \<Rightarrow> app" where
  "userSpoke a =
     (if \<not> interviewActive (state a) then a
      else let a1 = setAvatarState ''speaking'' a;
               (u, a2) = Math_random a1;
               k = to_double (u * length mockResponses) div random_scale;
               response = (if k < length mockResponses then Some (mockResponses ! k) else None)
           in seq [updateCurrentQuestion response,
                   (\<lambda>x. snd (setTimeout CbResponseSpoken 3000 x))] a2)"

definition completeInterview :: "app \<Rightarrow> app" where
  "completeInterview a =
     seq [(\<lambda>x. x\<lparr>state := (state x)\<lparr>interviewActive := False\<rparr>\<rparr>),
          clearTimers,
          (\<lambda>x. on ''final-duration''
                  (set_textContent ''final-duration''
                     (formatDuration (interviewDuration (state x)))) x),
          (\<lambda>x. if has ''questions-completed'' x \<and> selectedRole (state x) \<noteq> None
                then let total = length (getCurrentQuestions x)
                     in set_textContent ''questions-completed''
                          (show_nat (min (currentQuestionIndex (state x) + 1) total)
                             @ ''/'' @ show_nat total) x
                else x),
          showScreen ''interview-complete''] a"

definition responseSpoken :: "app \<Rightarrow> app" where
  "responseSpoken a =
     (if \<not> interviewActive (state a) then a
      else let a1 = a\<lparr>state := (state a)\<lparr>currentQuestionIndex :=
                        currentQuestionIndex (state a) + 1\<rparr>\<rparr>
           in if currentQuestionIndex (state a1) < length (getCurrentQuestions a1)
              then seq [updateInterviewProgress, beginQuestionFlow] a1
              else completeInterview a1)"

definition pauseInterview :: "app \<Rightarrow> app" where
  "pauseInterview a =
     seq [(\<lambda>x. x\<lparr>state := (state x)\<lparr>interviewActive := False\<rparr>\<rparr>),
          (\<lambda>x. if has ''start-stop-btn'' x
                then on ''start-stop-btn .btn-text''
                       (set_textContent ''start-stop-btn .btn-text'' ''Resume Interview'') x
                else x),
          on ''start-stop-btn'' (classList_remove ''start-stop-btn'' ''active''),
          setAvatarState ''ready'',
          clearTimers] a"

definition toggleInterview :: "app \<Rightarrow> app" where
  "toggleInterview a =
     (if \<not> interviewActive (state a)
      then seq [(\<lambda>x. x\<lparr>state := (state x)\<lparr>interviewActive := True,
                                             interviewStartTime := Some (now x),
                                             currentQuestionIndex := 0\<rparr>\<rparr>),
                (\<lambda>x. if has ''start-stop-btn'' x
                      then on ''start-stop-btn .btn-text''
                             (set_textContent ''start-stop-btn .btn-text'' ''Stop Interview'') x
                      else x),
                on ''start-stop-btn'' (classList_add ''start-stop-btn'' ''active''),
                startInterviewTimer,
                beginQuestionFlow] a
      else pauseInterview a)"

definition mic :: string where
  "mic = [CHR 0xF0, CHR 0x9F, CHR 0x8E, CHR 0xA4]"

definition toggleMute :: "app \<Rightarrow> app" where
  "toggleMute a =
     (let a1 = a\<lparr>state := (state a)\<lparr>isMuted := \<not> isMuted (state a)\<rparr>\<rparr>;
          label = (\<lambda>t x. if has ''mute-btn'' x
                          then on ''mute-btn .btn-text'' (set_textContent ''mute-btn .btn-text'' t) x
                          else x)
      in if isMuted (state a1)
         then seq [label (mic @ '' Muted''),
                   on ''mute-btn'' (classList_add ''mute-btn'' ''active'')] a1
         else seq [label (mic @ '' Unmuted''),
                   on ''mute-btn'' (classList_remove ''mute-btn'' ''active'')] a1)"

definition endInterview :: "app \<Rightarrow> app" where
  "endInterview a =
     seq [(\<lambda>x. x\<lparr>state := (state x)\<lparr>interviewActive := False\<rparr>\<rparr>),
          clearTimers,
          completeInterview] a"

subsection \<open>Reset and construction\<close>

definition resetApp :: "app \<Rightarrow> app" where
  "resetApp a =
     seq [clearTimers,
          (\<lambda>x. x\<lparr>state := initial_state\<rparr>),
          deselect_all,
          removeFile,
          showScreen ''role-selection''] a"

text \<open>
  The constructor: the page \<open>d\<close> as the browser parsed it and the random sequence are the
  environment; the clock starts at \<open>t0\<close> and timer handles at \<open>1\<close>.
\<close>

definition new_app :: "dom \<Rightarrow> (nat \<Rightarrow> nat) \<Rightarrow> nat \<Rightarrow> app" where
  "new_app d r t0 =
     renderRoles
       \<lparr>state = initial_state, timers = no_timers, doc = d, now = t0, pending = [],
        next_id = 1, rng = r, draws = 0\<rparr>"

section \<open>Running timers\<close>

text \<open>\<open>run_callback i c\<close> runs the function \<open>c\<close> of the timer with handle \<open>i\<close>.\<close>

definition run_callback :: "nat \<Rightarrow> callback \<Rightarrow> app \<Rightarrow> app" where
  "run_callback i c a =
     (case c of
        CbShowResumeUpload \<Rightarrow> showScreen ''resume-upload'' a
      | CbProgressInterval f p \<Rightarrow> progressTick i f p a
      | CbCompleteUpload f \<Rightarrow> completeUpload f a
      | CbProcessStep n \<Rightarrow> processStep n a
      | CbStartVoiceInterview \<Rightarrow> startVoiceInterview a
      | CbInterviewClock \<Rightarrow> interviewClock a
      | CbQuestionSpoken \<Rightarrow> questionSpoken a
      | CbUserSpoke \<Rightarrow> userSpoke a
      | CbResponseSpoken \<Rightarrow> responseSpoken a
      | CbHideError \<Rightarrow> hideError a)"

text \<open>
  A timer that is still in the queue fires: a timeout leaves the queue, an interval is
  due again one period later; then its function runs. A handle that was cleared in the
  meantime does nothing.
\<close>

definition fire :: "nat \<Rightarrow> app \<Rightarrow> app" where
  "fire i a =
     (case find (\<lambda>t. tid t = i) (pending a) of
        None \<Rightarrow> a
      | Some t \<Rightarrow>
          run_callback i (cb t)
            (case period t of
               None \<Rightarrow> a\<lparr>pending := filter (\<lambda>x. tid x \<noteq> i) (pending a)\<rparr>
             | Some p \<Rightarrow>
                 a\<lparr>pending := map (\<lambda>x. if tid x = i then x\<lparr>due := due x + p\<rparr> else x)
                                   (pending a)\<rparr>))"

text \<open>
  The timers that are due fire in the order in which they were set. One millisecond
  passes: the clock moves, then the due timers run. \<open>advance n\<close> lets \<open>n\<close> milliseconds
  pass.
\<close>

definition run_due :: "app \<Rightarrow> app" where
  "run_due a =
     foldl (\<lambda>x i. fire i x) a (map tid (filter (\<lambda>t. due t \<le> now a) (pending a)))"

definition tick :: "app \<Rightarrow> app" where
  "tick a = run_due (a\<lparr>now := now a + 1\<rparr>)"

fun advance :: "nat \<Rightarrow> app \<Rightarrow> app" where
  "advance 0 a = a"
| "advance (Suc n) a = advance n (tick a)"

section \<open>User events\<close>

text \<open>
  The listeners of \<open>bindEvents\<close> and \<open>bindUploadEvents\<close>. A listener exists when its
  element was found; the upload listeners are bound only when both the upload area and
  the file input exist; a disabled button receives no click.
\<close>

datatype action =
    ClickLogo
  | ClickRoleCard string
  | DropFiles "file_obj list"
  | ChooseFiles "file_obj list"
  | ClickRemoveFile
  | ClickBackToRoles
  | ClickStartInterview
  | ClickStartStop
  | ClickMute
  | ClickEndInterview
  | ClickStartNewInterview
  | ClickCloseError
  | Wait nat

definition upload_bound :: "app \<Rightarrow> bool" where
  "upload_bound a \<longleftrightarrow> has ''upload-area'' a \<and> has ''file-input'' a"

definition clickable :: "string \<Rightarrow> app \<Rightarrow> bool" where
  "clickable e a \<longleftrightarrow> has e a \<and> \<not> disabled (doc a) e"

fun handle :: "action \<Rightarrow> app \<Rightarrow> app" where
  "handle ClickLogo a = (if has ''.logo h1'' a then resetApp a else a)"
| "handle (ClickRoleCard roleId) a =
     (if has ''roles-grid'' a \<and> roleId \<in> fst ` set (cards (doc a))
      then case find (\<lambda>r. role_id r = roleId) jobRoles of
             Some r \<Rightarrow> selectRole r a
           | None \<Rightarrow> a
      else a)"
| "handle (DropFiles files) a =
     (if upload_bound a
      then case files of f # _ \<Rightarrow> handleFileUpload f a | [] \<Rightarrow> a
      else a)"
| "handle (ChooseFiles files) a =
     (if upload_bound a
      then case files of f # _ \<Rightarrow> handleFileUpload f a | [] \<Rightarrow> a
      else a)"
| "handle ClickRemoveFile a =
     (if upload_bound a \<and> clickable ''remove-file'' a then removeFile a else a)"
| "handle ClickBackToRoles a =
     (if clickable ''back-to-roles'' a then showScreen ''role-selection'' a else a)"
| "handle ClickStartInterview a =
     (if clickable ''start-interview'' a then startInterviewSetup a else a)"
| "handle ClickStartStop a =
     (if clickable ''start-stop-btn'' a then toggleInterview a else a)"
| "handle ClickMute a = (if clickable ''mute-btn'' a then toggleMute a else a)"
| "handle ClickEndInterview a =
     (if clickable ''end-interview'' a then endInterview a else a)"
| "handle ClickStartNewInterview a =
     (if clickable ''start-new-interview'' a then resetApp a else a)"
| "handle ClickCloseError a = (if clickable ''close-error'' a then hideError a else a)"
| "handle (Wait n) a = advance n a"

definition run :: "action list \<Rightarrow> app \<Rightarrow> app" where
  "run acts a = foldl (\<lambda>x act. handle act x) a acts"

text \<open>
  A page that has every element the controller looks up, with the five screens, for the
  scenarios below.
\<close>

definition full_page :: dom where
  "full_page =
   \<lparr>present =
      [''roles-grid'', ''.logo h1'', ''upload-area'', ''file-input'', ''.upload-trigger'',
       ''remove-file'', ''back-to-roles'', ''start-interview'', ''start-stop-btn'',
       ''start-stop-btn .btn-text'', ''mute-btn'', ''mute-btn .btn-text'', ''end-interview'',
       ''start-new-interview'', ''close-error'', ''upload-progress'', ''progress-fill'',
       ''progress-text'', ''file-info'', ''file-name'', ''file-size'', ''step-1'', ''step-2'',
       ''step-3'', ''step-1 .step-icon'', ''step-2 .step-icon'', ''step-3 .step-icon'',
       ''current-role'', ''final-duration'', ''questions-completed'', ''interview-time'',
       ''current-question'', ''total-questions'', ''interview-progress-fill'',
       ''current-question-text'', ''avatar-ball'', ''avatar-status'', ''error-toast'',
       ''error-message'', ''role-selection'', ''resume-upload'', ''interview-setup'',
       ''voice-interview'', ''interview-complete''],
    screens = [''role-selection'', ''resume-upload'', ''interview-setup'', ''voice-interview'',
               ''interview-complete''],
    classes = (\<lambda>e. if e = ''role-selection'' then [''screen'', ''active'']
                   else if e \<in> set [''resume-upload'', ''interview-setup'', ''voice-interview'',
                                     ''interview-complete''] then [''screen'']
                   else if e \<in> set [''upload-progress'', ''file-info'', ''error-toast'']
                   then [''hidden'']
                   else []),
    textContent = (\<lambda>e. []),
    disabled = (\<lambda>e. e = ''start-interview''),
    input_value = (\<lambda>e. []),
    cards = []\<rparr>"

section \<open>Notions used in the statements and proofs\<close>

text \<open>The four elements without which \<open>showUploadProgress\<close> returns at once.\<close>

definition upload_ready :: "app \<Rightarrow> bool" where
  "upload_ready a \<longleftrightarrow>
     has ''upload-area'' a \<and> has ''upload-progress'' a \<and> has ''progress-fill'' a
     \<and> has ''progress-text'' a"

text \<open>The handles that \<open>clearTimers\<close> clears: those stored in \<open>this.timers\<close>.\<close>

definition live :: "timer_handles \<Rightarrow> nat \<Rightarrow> bool" where
  "live hs i \<longleftrightarrow>
     i \<noteq> 0 \<and> (h_interview hs = Some i \<or> h_avatar hs = Some i \<or> h_setup hs = Some i)"

text \<open>
  The upload simulation is running: its interval, with handle \<open>i\<close> and progress \<open>p\<close>, is the
  only timer.
\<close>

definition uploading :: "file_obj \<Rightarrow> nat \<Rightarrow> nat \<Rightarrow> app \<Rightarrow> bool" where
  "uploading f i p b \<longleftrightarrow>
     pending b = [\<lparr>tid = i, due = now b + 150, period = Some 150, cb = CbProgressInterval f p\<rparr>]"

text \<open>
  The interview is running: the queue holds the clock (handle \<open>ci\<close>, due at \<open>c\<close>) and one
  timer of the question cycle (handle \<open>fi\<close>, due at \<open>d\<close>, function \<open>k\<close>), the role is \<open>r\<close>
  and the question index \<open>i\<close>. \<open>flowing\<close> says the same with the cycle's timer due in
  \<open>t\<close> ms; \<open>finished\<close> describes the completion screen of role \<open>r\<close>.
\<close>

definition clock_timer :: "nat \<Rightarrow> nat \<Rightarrow> timer" where
  "clock_timer ci c = \<lparr>tid = ci, due = c, period = Some 1000, cb = CbInterviewClock\<rparr>"

definition in_flow :: "role \<Rightarrow> nat \<Rightarrow> nat \<Rightarrow> nat \<Rightarrow> nat \<Rightarrow> callback \<Rightarrow> nat \<Rightarrow> app \<Rightarrow> bool" where
  "in_flow r ci c fi d k i b \<longleftrightarrow>
     interviewActive (state b) \<and> selectedRole (state b) = Some r
     \<and> currentQuestionIndex (state b) = i
     \<and> pending b = [clock_timer ci c, \<lparr>tid = fi, due = d, period = None, cb = k\<rparr>]
     \<and> now b < c \<and> now b \<le> d \<and> h_interview (timers b) = Some ci
     \<and> ci \<noteq> 0 \<and> ci \<noteq> fi \<and> ci < next_id b"

definition next_progress :: "nat \<Rightarrow> app \<Rightarrow> nat" where
  "next_progress p b =
     to_double (p + to_double (5 * random_scale
                                 + to_double ((rng b (draws b) mod random_scale) * 15)))"

definition speaking_time :: "app \<Rightarrow> nat" where
  "speaking_time b =
     to_double (10000 * random_scale + to_double ((rng b (draws b) mod random_scale) * 10000))
       div random_scale"

definition flowing :: "role \<Rightarrow> callback \<Rightarrow> nat \<Rightarrow> nat \<Rightarrow> app \<Rightarrow> bool" where
  "flowing r k i t b \<longleftrightarrow> (\<exists>ci c fi. in_flow r ci c fi (now b + t) k i b)"

definition finished :: "role \<Rightarrow> app \<Rightarrow> bool" where
  "finished r b \<longleftrightarrow>
     \<not> interviewActive (state b) \<and> selectedRole (state b) = Some r
     \<and> currentScreen (state b) = ''interview-complete''
     \<and> currentQuestionIndex (state b) = length (questions r)
     \<and> textContent (doc b) ''questions-completed''
         = show_nat (length (questions r)) @ ''/'' @ show_nat (length (questions r))
     \<and> pending b = []"

definition same_page :: "app \<Rightarrow> app \<Rightarrow> bool" where
  "same_page a b \<longleftrightarrow>
     present (doc b) = present (doc a) \<and> rng b = rng a \<and> disabled (doc b) = disabled (doc a)"

text \<open>
  The user's way through the screens on the full page: pick the Backend card, wait for the
  upload screen, choose a 2 MiB \<open>resume.docx\<close>, wait for the simulated upload, press start,
  wait for the setup sequence.
\<close>

definition resume_docx :: file_obj where
  "resume_docx =
     \<lparr>file_name = ''resume.docx'',
      file_type = ''application/vnd.openxmlformats-officedocument.wordprocessingml.document'',
      file_size = 2 * 1024 * 1024\<rparr>"

definition to_upload :: "action list" where
  "to_upload = [ClickRoleCard ''Backend'', Wait 800, ChooseFiles [resume_docx], Wait 3500]"

definition to_interview :: "action list" where
  "to_interview = to_upload @ [ClickStartInterview, Wait 5500]"

text \<open>
  The user starts the interview, pauses it after 500 ms and resumes it 2000 ms later.
\<close>

definition to_pause :: "action list" where
  "to_pause = to_interview @ [ClickStartStop, Wait 500, ClickStartStop]"

definition to_resume :: "action list" where
  "to_resume = to_pause @ [Wait 2000, ClickStartStop]"

text \<open>
  Two files that \<open>handleFileUpload\<close> rejects, one for its type and one for its size, and
  the user choosing them 4 s apart on the upload screen.
\<close>

definition resume_exe :: file_obj where
  "resume_exe =
     \<lparr>file_name = ''resume.exe'', file_type = ''application/x-msdownload'', file_size = 1024\<rparr>"

definition large_pdf :: file_obj where
  "large_pdf =
     \<lparr>file_name = ''resume.pdf'', file_type = ''application/pdf'', file_size = 11 * 1024 * 1024\<rparr>"

definition two_errors :: "action list" where
  "two_errors = [ClickRoleCard ''Backend'', Wait 800, ChooseFiles [resume_exe], Wait 4000,
                 ChooseFiles [large_pdf]]"

text \<open>The avatar state is one of the three values of the source's comment.\<close>

definition avatar_ok :: "app \<Rightarrow> bool" where
  "avatar_ok a \<longleftrightarrow> avatarState (state a) \<in> set [''ready'', ''listening'', ''speaking'']"

text \<open>The Backend role of the catalog, and the application freshly constructed on the full page.\<close>

definition backend :: role where
  "backend = jobRoles ! 3"

definition app0 :: app where
  "app0 = new_app full_page (\<lambda>n. 0) 0"

section \<open>Rounding to a double\<close>

lemma excess_le: "p < 2 ^ (53 + n) \<Longrightarrow> excess p \<le> n"
proof (induction n arbitrary: p)
  case 0
  then show ?case by (simp add: excess.simps)
next
  case (Suc n)
  show ?case
  proof (cases "p < 2 ^ 53")
    case True
    then show ?thesis by (simp add: excess.simps)
  next
    case False
    have "p < 2 ^ Suc (53 + n)"
      using Suc.prems by (simp only: add_Suc_right)
    then have "p < 2 * 2 ^ (53 + n)"
      by (simp only: power_Suc)
    then have "p div 2 < 2 ^ (53 + n)"
      by linarith
    then have "excess (p div 2) \<le> n" by (rule Suc.IH)
    then show ?thesis using False by (simp add: excess.simps)
  qed
qed

lemma round_even_lower:
  assumes "2 ^ s dvd m" and "m \<le> p"
  shows "m \<le> round_even s p"
proof (cases "s = 0")
  case True
  then show ?thesis using assms by (simp add: round_even_def)
next
  case False
  obtain c where c: "m = c * 2 ^ s" using assms(1) by (auto simp: dvd_def mult.commute)
  have "c \<le> p div 2 ^ s"
    using assms(2) c by (simp add: less_eq_div_iff_mult_less_eq)
  then have "m \<le> (p div 2 ^ s) * 2 ^ s"
    using c by simp
  also have "\<dots> \<le> round_even s p"
    using False by (simp add: round_even_def Let_def)
  finally show ?thesis .
qed

lemma round_even_upper:
  assumes "2 ^ s dvd m" and "p \<le> m"
  shows "round_even s p \<le> m"
proof (cases "s = 0")
  case True
  then show ?thesis using assms by (simp add: round_even_def)
next
  case False
  obtain c where c: "m = c * 2 ^ s" using assms(1) by (auto simp: dvd_def mult.commute)
  let ?q = "p div 2 ^ s" and ?r = "p mod 2 ^ s"
  show ?thesis
  proof (cases "?r = 0")
    case True
    then have "round_even s p = ?q * 2 ^ s"
      using False by (simp add: round_even_def Let_def)
    also have "\<dots> \<le> p" by simp
    finally show ?thesis using assms(2) by simp
  next
    case r: False
    have "?q * 2 ^ s < p"
      using r by (metis add.right_neutral div_mult_mod_eq nat_neq_iff mult.commute
          less_add_same_cancel1 neq0_conv)
    then have "?q * 2 ^ s < m"
      using assms(2) by (rule less_le_trans)
    then have "?q < c" unfolding c by simp
    then have "?q + 1 \<le> c" by simp
    then have "(?q + 1) * 2 ^ s \<le> c * 2 ^ s"
      by (rule mult_le_mono1)
    moreover have "round_even s p \<le> (?q + 1) * 2 ^ s"
      using False by (simp add: round_even_def Let_def)
    ultimately show ?thesis using c by simp
  qed
qed

lemma to_double_between:
  assumes "p < 2 ^ 106" and "2 ^ 53 dvd m"
  shows "m \<le> p \<Longrightarrow> m \<le> to_double p" and "p \<le> m \<Longrightarrow> to_double p \<le> m"
proof -
  have "excess p \<le> 53"
    using assms(1) excess_le [of p 53] by simp
  then have "(2::nat) ^ excess p dvd 2 ^ 53"
    by (rule le_imp_power_dvd)
  then have d: "2 ^ excess p dvd m"
    using assms(2) dvd_trans by blast
  show "m \<le> p \<Longrightarrow> m \<le> to_double p"
    unfolding to_double_def using d by (rule round_even_lower)
  show "p \<le> m \<Longrightarrow> to_double p \<le> m"
    unfolding to_double_def using d by (rule round_even_upper)
qed

text \<open>
  A result that lies between two multiples of \<open>random_scale\<close> stays between them after
  rounding, since whole numbers of this size are doubles.
\<close>

lemma to_double_whole:
  assumes "p < 2 ^ 53 * random_scale"
  shows "m * random_scale \<le> p \<Longrightarrow> m * random_scale \<le> to_double p"
    and "p \<le> m * random_scale \<Longrightarrow> to_double p \<le> m * random_scale"
proof -
  have p: "p < 2 ^ 106"
    using assms by (simp add: random_scale_def)
  have d: "2 ^ 53 dvd m * random_scale"
    by (simp add: random_scale_def)
  show "m * random_scale \<le> p \<Longrightarrow> m * random_scale \<le> to_double p"
    using p d by (rule to_double_between(1))
  show "p \<le> m * random_scale \<Longrightarrow> to_double p \<le> m * random_scale"
    using p d by (rule to_double_between(2))
qed

lemma to_double_exact: "m < 2 ^ 53 \<Longrightarrow> to_double (m * random_scale) = m * random_scale"
proof -
  assume "m < 2 ^ 53"
  then have "m * random_scale < 2 ^ 53 * random_scale"
    by (simp add: random_scale_def)
  then show ?thesis
    using to_double_whole [of "m * random_scale" m] by (simp add: antisym)
qed

lemma random_product:
  assumes "u < random_scale" and "c < 2 ^ 53"
  shows "to_double (u * c) \<le> c * random_scale"
proof -
  have "u * c \<le> random_scale * c"
    using assms(1) by simp
  then have le: "u * c \<le> c * random_scale"
    by (simp add: mult.commute)
  have "c * random_scale < 2 ^ 53 * random_scale"
    using assms(2) by (simp add: random_scale_def)
  then have "u * c < 2 ^ 53 * random_scale"
    using le by (rule le_less_trans [rotated])
  then show ?thesis
    using le by (rule to_double_whole(2))
qed

lemma next_progress_grows:
  assumes "p < 100 * random_scale" and "j * (5 * random_scale) \<le> p"
  shows "(j + 1) * (5 * random_scale) \<le> next_progress p b"
proof -
  let ?u = "rng b (draws b) mod random_scale"
  let ?y = "to_double (?u * 15)"
  let ?inc = "to_double (5 * random_scale + ?y)"
  have "?u < random_scale"
    by (simp add: random_scale_def)
  then have y: "?y \<le> 15 * random_scale"
    by (rule random_product) simp
  then have "5 * random_scale + ?y < 2 ^ 53 * random_scale"
    by (simp add: random_scale_def)
  then have lo: "5 * random_scale \<le> ?inc" and hi: "?inc \<le> 20 * random_scale"
    using y to_double_whole [of "5 * random_scale + ?y" 5]
      to_double_whole [of "5 * random_scale + ?y" 20] by simp_all
  have "p + ?inc < 2 ^ 53 * random_scale"
    using assms(1) hi by (simp add: random_scale_def)
  moreover have "((j + 1) * 5) * random_scale = j * (5 * random_scale) + 5 * random_scale"
    by (simp add: algebra_simps)
  then have "((j + 1) * 5) * random_scale \<le> p + ?inc"
    using assms(2) lo by linarith
  ultimately have "((j + 1) * 5) * random_scale \<le> to_double (p + ?inc)"
    by (rule to_double_whole(1))
  then show ?thesis
    by (simp add: next_progress_def algebra_simps)
qed

lemma to_double_0: "to_double 0 = 0"
  by (simp add: to_double_def round_even_def excess.simps)

section \<open>Basic facts about the document operations\<close>

lemmas dom_ops = has_def on_def seq_def classList_add_def classList_remove_def
  set_className_def set_textContent_def set_disabled_def set_value_def

lemma add_class_idem: "add_class c (add_class c cs) = add_class c cs"
  by (simp add: add_class_def)

lemma remove_class_idem: "remove_class c (remove_class c cs) = remove_class c cs"
  by (simp add: remove_class_def)

lemma remove_add_class:
  "c \<noteq> d \<Longrightarrow> remove_class d (add_class c cs) = add_class c (remove_class d cs)"
  by (simp add: remove_class_def add_class_def)

lemma removeFile_state:
  "state (removeFile a) = (state a)\<lparr>uploadedFile := None\<rparr>"
  by (simp add: removeFile_def dom_ops)

lemma removeFile_frame:
  "timers (removeFile a) = timers a \<and> pending (removeFile a) = pending a
   \<and> now (removeFile a) = now a \<and> next_id (removeFile a) = next_id a"
  by (simp add: removeFile_def dom_ops)

lemma removeFile_twice: "removeFile (removeFile a) = removeFile a"
  by (cases "has ''upload-area'' a"; cases "has ''file-info'' a";
      cases "has ''start-interview'' a"; cases "has ''file-input'' a")
     (simp_all add: removeFile_def dom_ops add_class_idem remove_class_idem remove_add_class)

section \<open>What each operation does to the controller's fields\<close>

lemma deactivate_screens:
  "\<exists>d. foldl (\<lambda>x s. classList_remove s c x) a ss = a\<lparr>doc := d\<rparr>
       \<and> present d = present (doc a) \<and> screens d = screens (doc a)
       \<and> textContent d = textContent (doc a) \<and> cards d = cards (doc a)
       \<and> disabled d = disabled (doc a)"
proof (induction ss arbitrary: a)
  case Nil
  show ?case by (rule exI [of _ "doc a"]) simp
next
  case (Cons s ss)
  obtain d where d: "foldl (\<lambda>x s. classList_remove s c x) (classList_remove s c a) ss
        = (classList_remove s c a)\<lparr>doc := d\<rparr>"
      "present d = present (doc (classList_remove s c a))"
      "screens d = screens (doc (classList_remove s c a))"
      "textContent d = textContent (doc (classList_remove s c a))"
      "cards d = cards (doc (classList_remove s c a))"
      "disabled d = disabled (doc (classList_remove s c a))"
    using Cons.IH [of "classList_remove s c a"] by blast
  have "foldl (\<lambda>x s. classList_remove s c x) a (s # ss) = (classList_remove s c a)\<lparr>doc := d\<rparr>"
    by (simp add: d(1))
  also have "\<dots> = a\<lparr>doc := d\<rparr>"
    by (simp add: classList_remove_def)
  finally have "foldl (\<lambda>x s. classList_remove s c x) a (s # ss) = a\<lparr>doc := d\<rparr>" .
  moreover have "present d = present (doc a) \<and> screens d = screens (doc a)
       \<and> textContent d = textContent (doc a) \<and> cards d = cards (doc a)
       \<and> disabled d = disabled (doc a)"
    by (simp add: d(2-) classList_remove_def)
  ultimately show ?case by blast
qed

lemma showScreen_ctl [simp]:
  "state (showScreen s a) = (if has s a then (state a)\<lparr>currentScreen := s\<rparr> else state a)"
  "timers (showScreen s a) = timers a"
  "pending (showScreen s a) = pending a"
  "now (showScreen s a) = now a"
  "next_id (showScreen s a) = next_id a"
  "rng (showScreen s a) = rng a"
  "draws (showScreen s a) = draws a"
  "present (doc (showScreen s a)) = present (doc a)"
  "textContent (doc (showScreen s a)) = textContent (doc a)"
  "cards (doc (showScreen s a)) = cards (doc a)"
proof -
  obtain d where d: "foldl (\<lambda>x s. classList_remove s ''active'' x) a (screens (doc a)) = a\<lparr>doc := d\<rparr>"
      "present d = present (doc a)" "textContent d = textContent (doc a)" "cards d = cards (doc a)"
    using deactivate_screens [of "''active''" a "screens (doc a)"] by blast
  show "state (showScreen s a) = (if has s a then (state a)\<lparr>currentScreen := s\<rparr> else state a)"
    "timers (showScreen s a) = timers a"
    "pending (showScreen s a) = pending a"
    "now (showScreen s a) = now a"
    "next_id (showScreen s a) = next_id a"
    "rng (showScreen s a) = rng a"
    "draws (showScreen s a) = draws a"
    "present (doc (showScreen s a)) = present (doc a)"
    "textContent (doc (showScreen s a)) = textContent (doc a)"
    "cards (doc (showScreen s a)) = cards (doc a)"
    by (simp_all add: showScreen_def Let_def d has_def classList_add_def)
qed

lemma hideError_ctl [simp]:
  "state (hideError a) = state a" "timers (hideError a) = timers a"
  "pending (hideError a) = pending a" "now (hideError a) = now a"
  "next_id (hideError a) = next_id a" "rng (hideError a) = rng a" "draws (hideError a) = draws a"
  "present (doc (hideError a)) = present (doc a)"
  by (simp_all add: hideError_def dom_ops)

lemma showError_ctl [simp]:
  "state (showError m a) = state a" "timers (showError m a) = timers a"
  "pending (showError m a) =
     pending a @ [\<lparr>tid = next_id a, due = now a + 5000, period = None, cb = CbHideError\<rparr>]"
  "now (showError m a) = now a"
  "next_id (showError m a) = next_id a + 1" "rng (showError m a) = rng a"
  "draws (showError m a) = draws a"
  "present (doc (showError m a)) = present (doc a)"
  by (simp_all add: showError_def dom_ops setTimeout_def)

lemma setAvatarState_ctl [simp]:
  "state (setAvatarState s a) = (state a)\<lparr>avatarState := s\<rparr>"
  "timers (setAvatarState s a) = timers a"
  "pending (setAvatarState s a) = pending a"
  "now (setAvatarState s a) = now a"
  "next_id (setAvatarState s a) = next_id a"
  "rng (setAvatarState s a) = rng a"
  "draws (setAvatarState s a) = draws a"
  "present (doc (setAvatarState s a)) = present (doc a)"
  by (simp_all add: setAvatarState_def dom_ops)

lemma updateInterviewProgress_ctl [simp]:
  "state (updateInterviewProgress a) = state a"
  "timers (updateInterviewProgress a) = timers a"
  "pending (updateInterviewProgress a) = pending a"
  "now (updateInterviewProgress a) = now a"
  "next_id (updateInterviewProgress a) = next_id a"
  "rng (updateInterviewProgress a) = rng a"
  "draws (updateInterviewProgress a) = draws a"
  "present (doc (updateInterviewProgress a)) = present (doc a)"
  "e \<noteq> ''current-question'' \<Longrightarrow> e \<noteq> ''total-questions'' \<Longrightarrow>
     textContent (doc (updateInterviewProgress a)) e = textContent (doc a) e"
  by (simp_all add: updateInterviewProgress_def Let_def dom_ops)

lemma updateCurrentQuestion_ctl [simp]:
  "state (updateCurrentQuestion t a) = state a"
  "timers (updateCurrentQuestion t a) = timers a"
  "pending (updateCurrentQuestion t a) = pending a"
  "now (updateCurrentQuestion t a) = now a"
  "next_id (updateCurrentQuestion t a) = next_id a"
  "rng (updateCurrentQuestion t a) = rng a"
  "draws (updateCurrentQuestion t a) = draws a"
  "present (doc (updateCurrentQuestion t a)) = present (doc a)"
  "e \<noteq> ''current-question-text'' \<Longrightarrow>
     textContent (doc (updateCurrentQuestion t a)) e = textContent (doc a) e"
  by (simp_all add: updateCurrentQuestion_def Let_def dom_ops split: option.splits)

lemma clear_handle_ctl [simp]:
  "state (clear_handle h a) = state a" "timers (clear_handle h a) = timers a"
  "pending (clear_handle h a) =
     filter (\<lambda>t. \<not> (\<exists>i. h = Some i \<and> i \<noteq> 0 \<and> tid t = i)) (pending a)"
  "now (clear_handle h a) = now a" "next_id (clear_handle h a) = next_id a"
  "rng (clear_handle h a) = rng a" "draws (clear_handle h a) = draws a"
  "doc (clear_handle h a) = doc a"
  by (auto simp: clear_handle_def clearTimeout_def clearInterval_def split: option.splits
        intro!: filter_cong)

lemma clearTimers_ctl [simp]:
  "state (clearTimers a) = state a" "timers (clearTimers a) = no_timers"
  "pending (clearTimers a) = filter (\<lambda>t. \<not> live (timers a) (tid t)) (pending a)"
  "now (clearTimers a) = now a" "next_id (clearTimers a) = next_id a"
  "rng (clearTimers a) = rng a" "draws (clearTimers a) = draws a"
  "doc (clearTimers a) = doc a"
  by (auto simp: clearTimers_def seq_def live_def intro!: filter_cong)

lemma renderRoles_ctl [simp]:
  "state (renderRoles a) = state a"
  "timers (renderRoles a) = timers a"
  "pending (renderRoles a) = pending a"
  "now (renderRoles a) = now a"
  "next_id (renderRoles a) = next_id a"
  "rng (renderRoles a) = rng a"
  "draws (renderRoles a) = draws a"
  "present (doc (renderRoles a)) = present (doc a)"
  by (simp_all add: renderRoles_def has_def)

lemma deselect_all_ctl [simp]:
  "state (deselect_all a) = state a"
  "timers (deselect_all a) = timers a"
  "pending (deselect_all a) = pending a"
  "now (deselect_all a) = now a"
  "next_id (deselect_all a) = next_id a"
  "rng (deselect_all a) = rng a"
  "draws (deselect_all a) = draws a"
  "present (doc (deselect_all a)) = present (doc a)"
  by (simp_all add: deselect_all_def)

lemma selectRole_ctl [simp]:
  "state (selectRole r a) = (state a)\<lparr>selectedRole := Some r\<rparr>"
  "timers (selectRole r a) = timers a"
  "pending (selectRole r a) = pending a @ [\<lparr>tid = next_id a, due = now a + 800, period = None, cb = CbShowResumeUpload\<rparr>]"
  "now (selectRole r a) = now a"
  "next_id (selectRole r a) = next_id a + 1"
  "rng (selectRole r a) = rng a"
  "draws (selectRole r a) = draws a"
  "present (doc (selectRole r a)) = present (doc a)"
  by (simp_all add: selectRole_def seq_def setTimeout_def)

lemma completeUpload_ctl [simp]:
  "state (completeUpload f a) = (state a)\<lparr>uploadedFile := Some f\<rparr>"
  "timers (completeUpload f a) = timers a"
  "pending (completeUpload f a) = pending a"
  "now (completeUpload f a) = now a"
  "next_id (completeUpload f a) = next_id a"
  "rng (completeUpload f a) = rng a"
  "draws (completeUpload f a) = draws a"
  "present (doc (completeUpload f a)) = present (doc a)"
  by (simp_all add: completeUpload_def dom_ops)

lemma removeFile_ctl [simp]:
  "state (removeFile a) = (state a)\<lparr>uploadedFile := None\<rparr>"
  "timers (removeFile a) = timers a"
  "pending (removeFile a) = pending a"
  "now (removeFile a) = now a"
  "next_id (removeFile a) = next_id a"
  "rng (removeFile a) = rng a"
  "draws (removeFile a) = draws a"
  "present (doc (removeFile a)) = present (doc a)"
  by (simp_all add: removeFile_def dom_ops)

lemma interviewClock_ctl [simp]:
  "state (interviewClock a) = (state a)\<lparr>interviewDuration :=
        int (now a) - (case interviewStartTime (state a) of None \<Rightarrow> 0 | Some t \<Rightarrow> int t)\<rparr>"
  "timers (interviewClock a) = timers a"
  "pending (interviewClock a) = pending a"
  "now (interviewClock a) = now a"
  "next_id (interviewClock a) = next_id a"
  "rng (interviewClock a) = rng a"
  "draws (interviewClock a) = draws a"
  "present (doc (interviewClock a)) = present (doc a)"
  by (simp_all add: interviewClock_def Let_def dom_ops)

lemma toggleMute_ctl [simp]:
  "state (toggleMute a) = (state a)\<lparr>isMuted := \<not> isMuted (state a)\<rparr>"
  "timers (toggleMute a) = timers a"
  "pending (toggleMute a) = pending a"
  "now (toggleMute a) = now a"
  "next_id (toggleMute a) = next_id a"
  "rng (toggleMute a) = rng a"
  "draws (toggleMute a) = draws a"
  "present (doc (toggleMute a)) = present (doc a)"
  by (simp_all add: toggleMute_def Let_def dom_ops)

lemma startInterviewTimer_ctl [simp]:
  "state (startInterviewTimer a) = state a"
  "timers (startInterviewTimer a) = (timers a)\<lparr>h_interview := Some (next_id a)\<rparr>"
  "pending (startInterviewTimer a) = pending a @ [\<lparr>tid = next_id a, due = now a + 1000, period = Some 1000, cb = CbInterviewClock\<rparr>]"
  "now (startInterviewTimer a) = now a"
  "next_id (startInterviewTimer a) = next_id a + 1"
  "rng (startInterviewTimer a) = rng a"
  "draws (startInterviewTimer a) = draws a"
  "present (doc (startInterviewTimer a)) = present (doc a)"
  by (simp_all add: startInterviewTimer_def setInterval_def)

lemma beginQuestionFlow_ctl [simp]:
  "state (beginQuestionFlow a) = (state a)\<lparr>avatarState := ''speaking''\<rparr>"
  "timers (beginQuestionFlow a) = timers a"
  "pending (beginQuestionFlow a) = pending a @ [\<lparr>tid = next_id a, due = now a + 3000, period = None, cb = CbQuestionSpoken\<rparr>]"
  "now (beginQuestionFlow a) = now a"
  "next_id (beginQuestionFlow a) = next_id a + 1"
  "rng (beginQuestionFlow a) = rng a"
  "draws (beginQuestionFlow a) = draws a"
  "present (doc (beginQuestionFlow a)) = present (doc a)"
  by (simp_all add: beginQuestionFlow_def seq_def setTimeout_def)

lemma showUploadProgress_ctl [simp]:
  "state (showUploadProgress f a) = state a"
  "timers (showUploadProgress f a) = timers a"
  "pending (showUploadProgress f a) =
     (if upload_ready a
      then pending a @ [\<lparr>tid = next_id a, due = now a + 150, period = Some 150,
                          cb = CbProgressInterval f 0\<rparr>]
      else pending a)"
  "now (showUploadProgress f a) = now a"
  "next_id (showUploadProgress f a) = (if upload_ready a then next_id a + 1 else next_id a)"
  "rng (showUploadProgress f a) = rng a"
  "draws (showUploadProgress f a) = draws a"
  "present (doc (showUploadProgress f a)) = present (doc a)"
  by (simp_all add: showUploadProgress_def upload_ready_def dom_ops setInterval_def)

lemma handleFileUpload_ctl [simp]:
  "state (handleFileUpload f a) = state a"
  "timers (handleFileUpload f a) = timers a"
  "now (handleFileUpload f a) = now a"
  "rng (handleFileUpload f a) = rng a"
  "draws (handleFileUpload f a) = draws a"
  "present (doc (handleFileUpload f a)) = present (doc a)"
  by (simp_all add: handleFileUpload_def)

lemma progressTick_ctl [simp]:
  "state (progressTick i f p a) = state a"
  "timers (progressTick i f p a) = timers a"
  "pending (progressTick i f p a) =
     (let p1 = next_progress p a
      in if p1 \<ge> 100 * random_scale
         then filter (\<lambda>t. tid t \<noteq> i) (pending a)
                @ [\<lparr>tid = next_id a, due = now a + 500, period = None, cb = CbCompleteUpload f\<rparr>]
         else map (\<lambda>t. if tid t = i then t\<lparr>cb := CbProgressInterval f p1\<rparr> else t) (pending a))"
  "now (progressTick i f p a) = now a"
  "next_id (progressTick i f p a) =
     (if next_progress p a \<ge> 100 * random_scale then next_id a + 1 else next_id a)"
  "rng (progressTick i f p a) = rng a"
  "draws (progressTick i f p a) = draws a + 1"
  "doc (progressTick i f p a) = doc a"
  by (auto simp: progressTick_def next_progress_def Math_random_def Let_def setTimeout_def
        clearInterval_def)

lemma processStep_ctl [simp]:
  "state (processStep n a) = state a"
  "timers (processStep n a) =
     (if n < 3 then (timers a)\<lparr>h_setup := Some (next_id a)\<rparr> else timers a)"
  "pending (processStep n a) =
     pending a @ [if n < 3
                  then \<lparr>tid = next_id a, due = now a + 1500, period = None,
                        cb = CbProcessStep (n + 1)\<rparr>
                  else \<lparr>tid = next_id a, due = now a + 1000, period = None,
                        cb = CbStartVoiceInterview\<rparr>]"
  "now (processStep n a) = now a"
  "next_id (processStep n a) = next_id a + 1"
  "rng (processStep n a) = rng a"
  "draws (processStep n a) = draws a"
  "present (doc (processStep n a)) = present (doc a)"
  by (simp_all add: processStep_def steps_def Let_def dom_ops setTimeout_def split_beta)

lemma startInterviewSetup_ctl [simp]:
  "state (startInterviewSetup a) =
     (if has ''interview-setup'' a then (state a)\<lparr>currentScreen := ''interview-setup''\<rparr>
      else state a)"
  "timers (startInterviewSetup a) = (timers a)\<lparr>h_setup := Some (next_id a)\<rparr>"
  "pending (startInterviewSetup a) =
     pending a @ [\<lparr>tid = next_id a, due = now a + 1500, period = None, cb = CbProcessStep 1\<rparr>]"
  "now (startInterviewSetup a) = now a"
  "next_id (startInterviewSetup a) = next_id a + 1"
  "rng (startInterviewSetup a) = rng a"
  "draws (startInterviewSetup a) = draws a"
  "present (doc (startInterviewSetup a)) = present (doc a)"
  by (simp_all add: startInterviewSetup_def simulateSetupProcess_def seq_def)

lemma startVoiceInterview_ctl [simp]:
  "state (startVoiceInterview a) =
     (if has ''voice-interview'' a
      then (state a)\<lparr>currentScreen := ''voice-interview'', avatarState := ''ready''\<rparr>
      else (state a)\<lparr>avatarState := ''ready''\<rparr>)"
  "timers (startVoiceInterview a) = timers a"
  "pending (startVoiceInterview a) = pending a"
  "now (startVoiceInterview a) = now a"
  "next_id (startVoiceInterview a) = next_id a"
  "rng (startVoiceInterview a) = rng a"
  "draws (startVoiceInterview a) = draws a"
  "present (doc (startVoiceInterview a)) = present (doc a)"
  by (simp_all add: startVoiceInterview_def seq_def on_def has_def set_textContent_def
        split: option.splits)

lemma simulateInterviewFlow_ctl [simp]:
  "state (simulateInterviewFlow a) = state a"
  "timers (simulateInterviewFlow a) = timers a"
  "pending (simulateInterviewFlow a) =
     (if interviewActive (state a)
      then pending a @ [\<lparr>tid = next_id a,
              due = now a + speaking_time a,
              period = None, cb = CbUserSpoke\<rparr>]
      else pending a)"
  "now (simulateInterviewFlow a) = now a"
  "next_id (simulateInterviewFlow a) = (if interviewActive (state a) then next_id a + 1 else next_id a)"
  "rng (simulateInterviewFlow a) = rng a"
  "draws (simulateInterviewFlow a) = (if interviewActive (state a) then draws a + 1 else draws a)"
  "doc (simulateInterviewFlow a) = doc a"
  by (simp_all add: simulateInterviewFlow_def speaking_time_def Math_random_def Let_def
        setTimeout_def)

lemma questionSpoken_ctl [simp]:
  "state (questionSpoken a) =
     (if interviewActive (state a) then (state a)\<lparr>avatarState := ''listening''\<rparr> else state a)"
  "timers (questionSpoken a) = timers a"
  "pending (questionSpoken a) =
     (if interviewActive (state a)
      then pending a @ [\<lparr>tid = next_id a,
              due = now a + speaking_time a,
              period = None, cb = CbUserSpoke\<rparr>]
      else pending a)"
  "now (questionSpoken a) = now a"
  "next_id (questionSpoken a) = (if interviewActive (state a) then next_id a + 1 else next_id a)"
  "rng (questionSpoken a) = rng a"
  "draws (questionSpoken a) = (if interviewActive (state a) then draws a + 1 else draws a)"
  "present (doc (questionSpoken a)) = present (doc a)"
  by (simp_all add: questionSpoken_def seq_def speaking_time_def)

lemma userSpoke_ctl [simp]:
  "state (userSpoke a) =
     (if interviewActive (state a) then (state a)\<lparr>avatarState := ''speaking''\<rparr> else state a)"
  "timers (userSpoke a) = timers a"
  "pending (userSpoke a) =
     (if interviewActive (state a)
      then pending a @ [\<lparr>tid = next_id a, due = now a + 3000, period = None,
                          cb = CbResponseSpoken\<rparr>]
      else pending a)"
  "now (userSpoke a) = now a"
  "next_id (userSpoke a) = (if interviewActive (state a) then next_id a + 1 else next_id a)"
  "rng (userSpoke a) = rng a"
  "draws (userSpoke a) = (if interviewActive (state a) then draws a + 1 else draws a)"
  "present (doc (userSpoke a)) = present (doc a)"
  by (simp_all add: userSpoke_def Math_random_def Let_def seq_def setTimeout_def)

lemma completeInterview_ctl [simp]:
  "state (completeInterview a) =
     (if has ''interview-complete'' a
      then (state a)\<lparr>interviewActive := False, currentScreen := ''interview-complete''\<rparr>
      else (state a)\<lparr>interviewActive := False\<rparr>)"
  "timers (completeInterview a) = no_timers"
  "pending (completeInterview a) = filter (\<lambda>t. \<not> live (timers a) (tid t)) (pending a)"
  "now (completeInterview a) = now a"
  "next_id (completeInterview a) = next_id a"
  "rng (completeInterview a) = rng a"
  "draws (completeInterview a) = draws a"
  "present (doc (completeInterview a)) = present (doc a)"
  by (simp_all add: completeInterview_def seq_def on_def has_def set_textContent_def Let_def)

lemma pauseInterview_ctl [simp]:
  "state (pauseInterview a) = (state a)\<lparr>interviewActive := False, avatarState := ''ready''\<rparr>"
  "timers (pauseInterview a) = no_timers"
  "pending (pauseInterview a) = filter (\<lambda>t. \<not> live (timers a) (tid t)) (pending a)"
  "now (pauseInterview a) = now a"
  "next_id (pauseInterview a) = next_id a"
  "rng (pauseInterview a) = rng a"
  "draws (pauseInterview a) = draws a"
  "present (doc (pauseInterview a)) = present (doc a)"
  by (simp_all add: pauseInterview_def seq_def on_def has_def set_textContent_def
        classList_remove_def)

lemma responseSpoken_ctl [simp]:
  "state (responseSpoken a) =
     (if \<not> interviewActive (state a) then state a
      else if currentQuestionIndex (state a) + 1 < length (getCurrentQuestions a)
      then (state a)\<lparr>currentQuestionIndex := currentQuestionIndex (state a) + 1,
                      avatarState := ''speaking''\<rparr>
      else if has ''interview-complete'' a
      then (state a)\<lparr>currentQuestionIndex := currentQuestionIndex (state a) + 1,
                      interviewActive := False, currentScreen := ''interview-complete''\<rparr>
      else (state a)\<lparr>currentQuestionIndex := currentQuestionIndex (state a) + 1,
                      interviewActive := False\<rparr>)"
  "timers (responseSpoken a) =
     (if \<not> interviewActive (state a) then timers a
      else if currentQuestionIndex (state a) + 1 < length (getCurrentQuestions a) then timers a
      else no_timers)"
  "pending (responseSpoken a) =
     (if \<not> interviewActive (state a) then pending a
      else if currentQuestionIndex (state a) + 1 < length (getCurrentQuestions a)
      then pending a @ [\<lparr>tid = next_id a, due = now a + 3000, period = None,
                          cb = CbQuestionSpoken\<rparr>]
      else filter (\<lambda>t. \<not> live (timers a) (tid t)) (pending a))"
  "now (responseSpoken a) = now a"
  "next_id (responseSpoken a) =
     (if interviewActive (state a)
         \<and> currentQuestionIndex (state a) + 1 < length (getCurrentQuestions a)
      then next_id a + 1 else next_id a)"
  "rng (responseSpoken a) = rng a"
  "draws (responseSpoken a) = draws a"
  "present (doc (responseSpoken a)) = present (doc a)"
  by (simp_all add: responseSpoken_def Let_def seq_def getCurrentQuestions_def has_def)

lemma toggleInterview_ctl [simp]:
  "state (toggleInterview a) =
     (if interviewActive (state a)
      then (state a)\<lparr>interviewActive := False, avatarState := ''ready''\<rparr>
      else (state a)\<lparr>interviewActive := True, interviewStartTime := Some (now a),
                      currentQuestionIndex := 0, avatarState := ''speaking''\<rparr>)"
  "timers (toggleInterview a) =
     (if interviewActive (state a) then no_timers
      else (timers a)\<lparr>h_interview := Some (next_id a)\<rparr>)"
  "pending (toggleInterview a) =
     (if interviewActive (state a) then filter (\<lambda>t. \<not> live (timers a) (tid t)) (pending a)
      else pending a
           @ [\<lparr>tid = next_id a, due = now a + 1000, period = Some 1000, cb = CbInterviewClock\<rparr>,
              \<lparr>tid = next_id a + 1, due = now a + 3000, period = None, cb = CbQuestionSpoken\<rparr>])"
  "now (toggleInterview a) = now a"
  "next_id (toggleInterview a) = (if interviewActive (state a) then next_id a else next_id a + 2)"
  "rng (toggleInterview a) = rng a"
  "draws (toggleInterview a) = draws a"
  "present (doc (toggleInterview a)) = present (doc a)"
  by (simp_all add: toggleInterview_def seq_def on_def has_def set_textContent_def
        classList_add_def)

lemma live_no_timers [simp]: "\<not> live no_timers i"
  by (simp add: live_def no_timers_def)

lemma endInterview_ctl [simp]:
  "state (endInterview a) =
     (if has ''interview-complete'' a
      then (state a)\<lparr>interviewActive := False, currentScreen := ''interview-complete''\<rparr>
      else (state a)\<lparr>interviewActive := False\<rparr>)"
  "timers (endInterview a) = no_timers"
  "pending (endInterview a) = filter (\<lambda>t. \<not> live (timers a) (tid t)) (pending a)"
  "now (endInterview a) = now a"
  "next_id (endInterview a) = next_id a"
  "rng (endInterview a) = rng a"
  "draws (endInterview a) = draws a"
  "present (doc (endInterview a)) = present (doc a)"
  by (simp_all add: endInterview_def seq_def has_def)

lemma resetApp_ctl [simp]:
  "state (resetApp a) = initial_state"
  "timers (resetApp a) = no_timers"
  "pending (resetApp a) = filter (\<lambda>t. \<not> live (timers a) (tid t)) (pending a)"
  "now (resetApp a) = now a"
  "next_id (resetApp a) = next_id a"
  "rng (resetApp a) = rng a"
  "draws (resetApp a) = draws a"
  "present (doc (resetApp a)) = present (doc a)"
  by (simp_all add: resetApp_def seq_def initial_state_def)

lemma disabled_showScreen [simp]: "disabled (doc (showScreen s a)) = disabled (doc a)"
proof -
  obtain d where d: "foldl (\<lambda>x s. classList_remove s ''active'' x) a (screens (doc a)) = a\<lparr>doc := d\<rparr>"
    "disabled d = disabled (doc a)"
    using deactivate_screens [of "''active''" a "screens (doc a)"] by blast
  show ?thesis
    by (simp add: showScreen_def Let_def d has_def classList_add_def)
qed

lemma disabled_parts [simp]:
  "disabled (doc (setAvatarState s a)) = disabled (doc a)"
  "disabled (doc (updateInterviewProgress a)) = disabled (doc a)"
  "disabled (doc (updateCurrentQuestion t a)) = disabled (doc a)"
  "disabled (doc (deselect_all a)) = disabled (doc a)"
  "disabled (doc (processStep n a)) = disabled (doc a)"
  "disabled (doc (removeFile a)) e
     = (if e = ''start-interview'' \<and> has ''start-interview'' a then True else disabled (doc a) e)"
  "disabled (doc (completeUpload f a)) e
     = (if e = ''start-interview'' \<and> has ''start-interview'' a then False else disabled (doc a) e)"
  "disabled (doc (selectRole r a)) = disabled (doc a)"
  "disabled (doc (showUploadProgress f a)) = disabled (doc a)"
  "disabled (doc (interviewClock a)) = disabled (doc a)"
  by (simp_all add: interviewClock_def setAvatarState_def updateInterviewProgress_def updateCurrentQuestion_def
        deselect_all_def processStep_def steps_def removeFile_def completeUpload_def
        selectRole_def showUploadProgress_def setTimeout_def setInterval_def split_beta
        Let_def dom_ops split: option.splits)

lemma disabled_flow [simp]:
  "disabled (doc (beginQuestionFlow a)) = disabled (doc a)"
  "disabled (doc (questionSpoken a)) = disabled (doc a)"
  "disabled (doc (userSpoke a)) = disabled (doc a)"
  "disabled (doc (startInterviewTimer a)) = disabled (doc a)"
  "disabled (doc (completeInterview a)) = disabled (doc a)"
  "disabled (doc (pauseInterview a)) = disabled (doc a)"
  by (simp_all add: beginQuestionFlow_def questionSpoken_def userSpoke_def
        startInterviewTimer_def completeInterview_def pauseInterview_def Math_random_def
        setTimeout_def setInterval_def seq_def on_def has_def set_textContent_def
        classList_remove_def Let_def)

lemma disabled_toggle [simp]:
  "disabled (doc (responseSpoken a)) = disabled (doc a)"
  "disabled (doc (toggleInterview a)) = disabled (doc a)"
  by (simp_all add: responseSpoken_def toggleInterview_def Let_def seq_def on_def has_def
        set_textContent_def classList_add_def)

lemma disabled_frame [simp]:
  "disabled (doc (startInterviewSetup a)) = disabled (doc a)"
  "disabled (doc (startVoiceInterview a)) = disabled (doc a)"
  "disabled (doc (resetApp a)) e
     = (if e = ''start-interview'' \<and> has ''start-interview'' a then True else disabled (doc a) e)"
  by (simp_all add: startInterviewSetup_def simulateSetupProcess_def startVoiceInterview_def
        resetApp_def seq_def on_def has_def set_textContent_def split: option.splits)

section \<open>The clock\<close>

lemma advance_add: "advance (m + n) a = advance n (advance m a)"
  by (induction m arbitrary: a) auto

lemma run_due_idle:
  assumes "\<forall>t\<in>set (pending a). now a < due t"
  shows "run_due a = a"
proof -
  have "filter (\<lambda>t. due t \<le> now a) (pending a) = []"
    using assms by (auto simp: filter_empty_conv)
  then show ?thesis by (simp add: run_due_def)
qed

lemma advance_idle:
  "\<forall>t\<in>set (pending a). now a + n < due t \<Longrightarrow> advance n a = a\<lparr>now := now a + n\<rparr>"
proof (induction n arbitrary: a)
  case 0
  then show ?case by simp
next
  case (Suc n)
  have "tick a = a\<lparr>now := now a + 1\<rparr>"
    unfolding tick_def using Suc.prems by (intro run_due_idle) auto
  moreover have "advance n (a\<lparr>now := now a + 1\<rparr>)
      = (a\<lparr>now := now a + 1\<rparr>)\<lparr>now := now (a\<lparr>now := now a + 1\<rparr>) + n\<rparr>"
    using Suc.prems by (intro Suc.IH) auto
  ultimately show ?case by simp
qed

lemma advance_quiet: "pending a = [] \<Longrightarrow> advance n a = a\<lparr>now := now a + n\<rparr>"
  by (rule advance_idle) simp

lemma advance_until:
  assumes "\<forall>t\<in>set (pending a). now a + d \<le> due t" "0 < d"
  shows "advance d a = run_due (a\<lparr>now := now a + d\<rparr>)"
proof -
  obtain k where k: "d = k + 1"
    using assms(2) by (metis Suc_eq_plus1 gr0_implies_Suc)
  have "\<forall>t\<in>set (pending a). now a + k < due t"
    using assms(1) k by fastforce
  then have "advance k a = a\<lparr>now := now a + k\<rparr>"
    by (rule advance_idle)
  then show ?thesis
    unfolding k advance_add by (simp add: tick_def)
qed

lemma advance_single:
  assumes "pending a = [t]" "due t = now a + d" "0 < d"
  shows "advance d a =
     run_callback (tid t) (cb t)
       (a\<lparr>now := now a + d,
          pending := (case period t of None \<Rightarrow> [] | Some p \<Rightarrow> [t\<lparr>due := due t + p\<rparr>])\<rparr>)"
proof -
  have "advance d a = run_due (a\<lparr>now := now a + d\<rparr>)"
    using assms by (intro advance_until) auto
  also have "\<dots> = fire (tid t) (a\<lparr>now := now a + d\<rparr>)"
    using assms by (simp add: run_due_def)
  finally show ?thesis
    using assms by (simp add: fire_def split: option.splits)
qed

lemma advance_timeout:
  assumes "pending a = [\<lparr>tid = i, due = now a + d, period = None, cb = c\<rparr>]" and "0 < d"
  shows "advance d a = run_callback i c (a\<lparr>now := now a + d, pending := []\<rparr>)"
  using advance_single [OF assms(1) _ assms(2)] by simp

section \<open>Removing the file\<close>

text \<open>
  C7. \<open>removeFile\<close> has no failing branch. When no file is stored it leaves the session
  state (and the timers and the timer queue) as they are, and calling it twice is the
  same as calling it once.
\<close>

theorem removeFile_noop_idempotent:
  "(uploadedFile (state a) = None \<longrightarrow>
      state (removeFile a) = state a \<and> timers (removeFile a) = timers a
      \<and> pending (removeFile a) = pending a)
   \<and> removeFile (removeFile a) = removeFile a"
  by (simp add: removeFile_state removeFile_frame removeFile_twice)

theorem removeFile_noop_idempotent_witness:
  "uploadedFile (state (new_app full_page (\<lambda>n. 0) 0)) = None
   \<and> state (removeFile (new_app full_page (\<lambda>n. 0) 0)) = state (new_app full_page (\<lambda>n. 0) 0)
   \<and> removeFile (removeFile (new_app full_page (\<lambda>n. 0) 0))
       = removeFile (new_app full_page (\<lambda>n. 0) 0)"
  using removeFile_noop_idempotent [of "new_app full_page (\<lambda>n. 0) 0"]
  by (simp add: new_app_def renderRoles_def initial_state_def)

section \<open>Role selection\<close>

lemma select_first_one:
  "\<forall>c\<in>set cs. \<not> snd c \<Longrightarrow> length (filter snd (select_first r cs)) \<le> 1"
  by (induction cs) auto

lemma select_first_only:
  "\<forall>c\<in>set cs. \<not> snd c \<Longrightarrow> c \<in> set (select_first r cs) \<Longrightarrow> snd c \<Longrightarrow> fst c = r"
  by (induction cs) (auto split: if_splits)

lemma select_first_found:
  "r \<in> fst ` set cs \<Longrightarrow> \<forall>c\<in>set cs. \<not> snd c \<Longrightarrow> length (filter snd (select_first r cs)) = 1"
  by (induction cs) auto

lemma selectRole_cards:
  "cards (doc (selectRole r a)) = select_first (role_id r) (map (\<lambda>c. (fst c, False)) (cards (doc a)))"
  by (simp add: selectRole_def seq_def deselect_all_def setTimeout_def)

lemma select_first_deselect:
  "map (\<lambda>c. (fst c, False)) (select_first r cs) = map (\<lambda>c. (fst c, False)) cs"
  by (induction cs) auto

lemma selectRole_then_wait:
  assumes "pending a = []"
  shows "advance 800 (selectRole r a)
    = showScreen ''resume-upload'' ((selectRole r a)\<lparr>now := now a + 800, pending := []\<rparr>)"
proof -
  let ?t = "\<lparr>tid = next_id a, due = now a + 800, period = None, cb = CbShowResumeUpload\<rparr>"
  have "advance 800 (selectRole r a)
      = run_callback (tid ?t) (cb ?t) ((selectRole r a)\<lparr>now := now (selectRole r a) + 800,
          pending := (case period ?t of None \<Rightarrow> [] | Some p \<Rightarrow> [?t\<lparr>due := due ?t + p\<rparr>])\<rparr>)"
    using assms by (intro advance_single) simp_all
  then show ?thesis by (simp add: run_callback_def)
qed

text \<open>
  C6. For every role of the catalog, \<open>selectRole\<close> leaves at most one card selected, and
  only a card of that role (exactly one on the rendered grid); it stores the role in the
  session state and sets one timeout of 800 ms that shows the resume-upload screen: from
  an application with no other timer pending, 800 ms later the current screen is
  \<open>resume-upload\<close> when the page has that screen. Selecting the same role again gives
  the same session state and the same selection. \<open>selectRole\<close> has no failing branch.
\<close>

theorem selectRole_selects_one:
  assumes "r \<in> set jobRoles"
  shows "length (filter snd (cards (doc (selectRole r a)))) \<le> 1
    \<and> (\<forall>c\<in>set (cards (doc (selectRole r a))). snd c \<longrightarrow> fst c = role_id r)
    \<and> (map fst (cards (doc a)) = map role_id jobRoles \<longrightarrow>
          length (filter snd (cards (doc (selectRole r a)))) = 1)
    \<and> selectedRole (state (selectRole r a)) = Some r
    \<and> pending (selectRole r a)
        = pending a @ [\<lparr>tid = next_id a, due = now a + 800, period = None,
                         cb = CbShowResumeUpload\<rparr>]
    \<and> (has ''resume-upload'' a \<and> pending a = [] \<longrightarrow>
          currentScreen (state (advance 800 (selectRole r a))) = ''resume-upload'')
    \<and> state (selectRole r (selectRole r a)) = state (selectRole r a)
    \<and> cards (doc (selectRole r (selectRole r a))) = cards (doc (selectRole r a))"
proof -
  let ?cs = "map (\<lambda>c. (fst c, False)) (cards (doc a))"
  have none: "\<forall>c\<in>set ?cs. \<not> snd c" by auto
  have 1: "length (filter snd (cards (doc (selectRole r a)))) \<le> 1"
    unfolding selectRole_cards using none by (rule select_first_one)
  have 2: "\<forall>c\<in>set (cards (doc (selectRole r a))). snd c \<longrightarrow> fst c = role_id r"
    unfolding selectRole_cards using select_first_only [OF none] by blast
  have 3: "map fst (cards (doc a)) = map role_id jobRoles \<longrightarrow>
          length (filter snd (cards (doc (selectRole r a)))) = 1"
  proof
    assume "map fst (cards (doc a)) = map role_id jobRoles"
    then have "fst ` set (cards (doc a)) = role_id ` set jobRoles"
      by (metis list.set_map)
    then have "role_id r \<in> fst ` set (cards (doc a))"
      using assms by blast
    then have "role_id r \<in> fst ` set ?cs" by force
    then show "length (filter snd (cards (doc (selectRole r a)))) = 1"
      unfolding selectRole_cards using none by (rule select_first_found)
  qed
  have 6: "has ''resume-upload'' a \<and> pending a = [] \<longrightarrow>
          currentScreen (state (advance 800 (selectRole r a))) = ''resume-upload''"
    by (simp add: selectRole_then_wait has_def)
  have 8: "cards (doc (selectRole r (selectRole r a))) = cards (doc (selectRole r a))"
    by (simp add: selectRole_cards select_first_deselect comp_def)
  show ?thesis using 1 2 3 6 8 by simp
qed


lemma new_app_ctl [simp]:
  "state (new_app d r t0) = initial_state" "timers (new_app d r t0) = no_timers"
  "pending (new_app d r t0) = []" "now (new_app d r t0) = t0" "next_id (new_app d r t0) = 1"
  "rng (new_app d r t0) = r" "draws (new_app d r t0) = 0"
  "present (doc (new_app d r t0)) = present d"
  by (simp_all add: new_app_def)

lemma new_app_cards:
  "''roles-grid'' \<in> set (present d) \<Longrightarrow>
     cards (doc (new_app d r t0)) = map (\<lambda>r. (role_id r, False)) jobRoles"
  by (simp add: new_app_def renderRoles_def has_def)

lemma backend_in_catalog: "backend \<in> set jobRoles"
  by (simp add: backend_def jobRoles_def)

theorem selectRole_selects_one_witness:
  "backend \<in> set jobRoles
   \<and> length (filter snd (cards (doc (selectRole backend app0)))) = 1
   \<and> selectedRole (state (selectRole backend app0)) = Some backend
   \<and> currentScreen (state (advance 800 (selectRole backend app0))) = ''resume-upload''"
proof -
  have "''roles-grid'' \<in> set (present full_page)" "''resume-upload'' \<in> set (present full_page)"
    by (simp_all add: full_page_def)
  then have "map fst (cards (doc app0)) = map role_id jobRoles" "has ''resume-upload'' app0"
    "pending app0 = []"
    by (simp_all add: app0_def new_app_cards has_def comp_def)
  then show ?thesis
    using selectRole_selects_one [OF backend_in_catalog, of app0] backend_in_catalog by simp
qed

section \<open>Error banner\<close>

lemma hidden_classes [simp]:
  "c \<notin> set (remove_class c cs)" "c \<in> set (add_class c cs)"
  by (simp_all add: remove_class_def add_class_def)

lemma showError_doc:
  "has ''error-toast'' a \<Longrightarrow>
     classes (doc (showError m a)) ''error-toast'' = remove_class ''hidden'' (classes (doc a) ''error-toast'')"
  "has ''error-message'' a \<Longrightarrow> textContent (doc (showError m a)) ''error-message'' = m"
  by (simp_all add: showError_def dom_ops setTimeout_def)

lemma hideError_doc:
  "has ''error-toast'' a \<Longrightarrow>
     classes (doc (hideError a)) ''error-toast'' = add_class ''hidden'' (classes (doc a) ''error-toast'')"
  by (simp add: hideError_def dom_ops)

lemma has_now [simp]: "has e (a\<lparr>now := n\<rparr>) = has e a"
  by (simp add: has_def)

lemma has_pending [simp]: "has e (a\<lparr>pending := n\<rparr>) = has e a"
  by (simp add: has_def)

lemma has_showError [simp]: "has e (showError m a) = has e a"
  by (simp add: has_def)

lemma has_hideError [simp]: "has e (hideError a) = has e a"
  by (simp add: has_def)

lemma showError_then_wait:
  assumes "pending a = []"
  shows "n < 5000 \<Longrightarrow> advance n (showError m a) = (showError m a)\<lparr>now := now a + n\<rparr>"
    and "advance 5000 (showError m a)
          = hideError ((showError m a)\<lparr>now := now a + 5000, pending := []\<rparr>)"
proof -
  show "n < 5000 \<Longrightarrow> advance n (showError m a) = (showError m a)\<lparr>now := now a + n\<rparr>"
    using assms advance_idle [of "showError m a" n] by simp
  let ?t = "\<lparr>tid = next_id a, due = now a + 5000, period = None, cb = CbHideError\<rparr>"
  have "advance 5000 (showError m a)
      = run_callback (tid ?t) (cb ?t) ((showError m a)\<lparr>now := now (showError m a) + 5000,
          pending := (case period ?t of None \<Rightarrow> [] | Some p \<Rightarrow> [?t\<lparr>due := due ?t + p\<rparr>])\<rparr>)"
    using assms by (intro advance_single) simp_all
  then show "advance 5000 (showError m a)
          = hideError ((showError m a)\<lparr>now := now a + 5000, pending := []\<rparr>)"
    by (simp add: run_callback_def)
qed

lemma showError_twice_then_wait:
  assumes "pending a = []" and "has ''error-toast'' a" and "k < 5000"
  shows "''hidden'' \<in> set (classes (doc (advance 5000
            (showError m' (advance k (showError m a))))) ''error-toast'')"
proof -
  let ?h1 = "\<lparr>tid = next_id a, due = now a + 5000, period = None, cb = CbHideError\<rparr>"
  let ?h2 = "\<lparr>tid = next_id a + 1, due = now a + k + 5000, period = None, cb = CbHideError\<rparr>"
  let ?b = "showError m' (advance k (showError m a))"
  have a2: "advance k (showError m a) = (showError m a)\<lparr>now := now a + k\<rparr>"
    using showError_then_wait(1) [OF assms(1,3)] .
  have b: "pending ?b = [?h1, ?h2]" "now ?b = now a + k" "has ''error-toast'' ?b"
    unfolding a2 using assms(1,2) by simp_all
  show ?thesis
  proof (cases "k = 0")
    case True
    have "advance 5000 ?b = run_due (?b\<lparr>now := now ?b + 5000\<rparr>)"
      using b True by (intro advance_until) simp_all
    also have "\<dots> = hideError ((hideError (?b\<lparr>now := now ?b + 5000, pending := [?h2]\<rparr>))
                          \<lparr>pending := []\<rparr>)"
      using b True by (simp add: run_due_def fire_def run_callback_def)
    finally show ?thesis
      using b(3) by (simp add: hideError_doc)
  next
    case False
    let ?b1 = "hideError (?b\<lparr>now := now ?b + (5000 - k), pending := [?h2]\<rparr>)"
    have "advance (5000 - k) ?b = run_due (?b\<lparr>now := now ?b + (5000 - k)\<rparr>)"
      using b assms(3) by (intro advance_until) simp_all
    also have "\<dots> = ?b1"
      using b False assms(3) by (simp add: run_due_def fire_def run_callback_def)
    finally have 1: "advance (5000 - k) ?b = ?b1" .
    have "advance k ?b1 = run_callback (next_id a + 1) CbHideError
        (?b1\<lparr>now := now ?b1 + k, pending := []\<rparr>)"
      using b False assms(3) by (intro advance_timeout) simp_all
    then have 2: "advance k ?b1 = hideError (?b1\<lparr>now := now ?b1 + k, pending := []\<rparr>)"
      by (simp add: run_callback_def)
    have "5000 = (5000 - k) + k"
      using assms(3) by simp
    then have "advance 5000 ?b = advance k (advance (5000 - k) ?b)"
      by (metis advance_add)
    then show ?thesis
      unfolding 1 2 using b(3) by (simp add: hideError_doc)
  qed
qed

text \<open>
  The timeout of an earlier \<open>showError\<close> is not cancelled by a later one: a message shown
  \<open>k\<close> ms after the first is hidden when the first call's 5000 ms are over.
\<close>

lemma later_error_cut_short:
  assumes "pending a = []" and "has ''error-toast'' a" and "0 < k" and "k < 5000"
  shows "''hidden'' \<in> set (classes (doc (advance (5000 - k)
            (showError m' (advance k (showError m a))))) ''error-toast'')"
    and "pending (advance (5000 - k) (showError m' (advance k (showError m a))))
          = [\<lparr>tid = next_id a + 1, due = now a + k + 5000, period = None, cb = CbHideError\<rparr>]"
    and "now (advance (5000 - k) (showError m' (advance k (showError m a)))) = now a + 5000"
proof -
  let ?h1 = "\<lparr>tid = next_id a, due = now a + 5000, period = None, cb = CbHideError\<rparr>"
  let ?h2 = "\<lparr>tid = next_id a + 1, due = now a + k + 5000, period = None, cb = CbHideError\<rparr>"
  let ?b = "showError m' (advance k (showError m a))"
  have a2: "advance k (showError m a) = (showError m a)\<lparr>now := now a + k\<rparr>"
    using showError_then_wait(1) [OF assms(1,4)] .
  have b: "pending ?b = [?h1, ?h2]" "now ?b = now a + k" "has ''error-toast'' ?b"
    unfolding a2 using assms(1,2) by simp_all
  have "advance (5000 - k) ?b = run_due (?b\<lparr>now := now ?b + (5000 - k)\<rparr>)"
    using b assms(4) by (intro advance_until) simp_all
  also have "\<dots> = hideError (?b\<lparr>now := now ?b + (5000 - k), pending := [?h2]\<rparr>)"
    using b assms(3,4) by (simp add: run_due_def fire_def run_callback_def)
  finally have e: "advance (5000 - k) ?b
      = hideError (?b\<lparr>now := now ?b + (5000 - k), pending := [?h2]\<rparr>)" .
  show "''hidden'' \<in> set (classes (doc (advance (5000 - k) ?b)) ''error-toast'')"
    unfolding e using b(3) by (simp add: hideError_doc)
  show "pending (advance (5000 - k) ?b) = [?h2]"
    unfolding e by simp
  show "now (advance (5000 - k) ?b) = now a + 5000"
    unfolding e using b(2) assms(4) by simp
qed

text \<open>
  What does hold of the banner. On a page with the banner and its message element,
  \<open>showError m\<close> shows the banner (removes its class \<open>hidden\<close>) with the text \<open>m\<close> and
  sets one timeout of 5000 ms that hides it: with no other timer pending, so for a single
  error, the banner stays visible for the 5000 ms and is hidden when they have passed.
  \<open>hideError\<close> hides it at once. A second \<open>showError\<close> replaces the text: the banner shows
  the most recent message, and 5000 ms after that second call the banner is hidden.
\<close>

lemma showError_banner:
  assumes "has ''error-toast'' a" and "has ''error-message'' a"
  shows "''hidden'' \<notin> set (classes (doc (showError m a)) ''error-toast'')
    \<and> textContent (doc (showError m a)) ''error-message'' = m
    \<and> pending (showError m a)
        = pending a @ [\<lparr>tid = next_id a, due = now a + 5000, period = None, cb = CbHideError\<rparr>]
    \<and> (pending a = [] \<longrightarrow>
          (\<forall>n<5000. ''hidden'' \<notin> set (classes (doc (advance n (showError m a))) ''error-toast''))
          \<and> ''hidden'' \<in> set (classes (doc (advance 5000 (showError m a))) ''error-toast''))
    \<and> ''hidden'' \<in> set (classes (doc (hideError (showError m a))) ''error-toast'')
    \<and> textContent (doc (showError m' (showError m a))) ''error-message'' = m'
    \<and> ''hidden'' \<notin> set (classes (doc (showError m' (showError m a))) ''error-toast'')
    \<and> (pending a = [] \<and> k < 5000 \<longrightarrow>
          textContent (doc (showError m' (advance k (showError m a)))) ''error-message'' = m'
          \<and> ''hidden'' \<in> set (classes (doc (advance 5000
                 (showError m' (advance k (showError m a))))) ''error-toast''))"
proof -
  have "pending a = [] \<and> k < 5000 \<longrightarrow>
          textContent (doc (showError m' (advance k (showError m a)))) ''error-message'' = m'
          \<and> ''hidden'' \<in> set (classes (doc (advance 5000
                 (showError m' (advance k (showError m a))))) ''error-toast'')"
    using assms showError_twice_then_wait [of a k m' m]
    by (simp add: showError_doc showError_then_wait(1))
  then show ?thesis
    using assms by (simp add: showError_doc hideError_doc showError_then_wait)
qed

lemma showError_banner_example:
  "has ''error-toast'' app0 \<and> has ''error-message'' app0
   \<and> textContent (doc (showError ''File size must be less than 10MB'' app0)) ''error-message''
       = ''File size must be less than 10MB''
   \<and> ''hidden'' \<notin> set (classes (doc (advance 4999
         (showError ''File size must be less than 10MB'' app0))) ''error-toast'')
   \<and> ''hidden'' \<in> set (classes (doc (advance 5000
         (showError ''File size must be less than 10MB'' app0))) ''error-toast'')"
proof -
  have "''error-toast'' \<in> set (present full_page)" "''error-message'' \<in> set (present full_page)"
    by (simp_all add: full_page_def)
  then have h: "has ''error-toast'' app0" "has ''error-message'' app0" "pending app0 = []"
    by (simp_all add: app0_def has_def)
  show ?thesis
    using showError_banner [OF h(1,2), of "''File size must be less than 10MB''"] h by simp
qed

section \<open>File upload\<close>

lemma upload_tick:
  assumes "uploading f i p b"
  shows "advance 150 b
    = progressTick i f p
        (b\<lparr>now := now b + 150,
           pending := [\<lparr>tid = i, due = now b + 300, period = Some 150,
                        cb = CbProgressInterval f p\<rparr>]\<rparr>)"
proof -
  let ?t = "\<lparr>tid = i, due = now b + 150, period = Some 150, cb = CbProgressInterval f p\<rparr>"
  have "advance 150 b = run_callback (tid ?t) (cb ?t)
       (b\<lparr>now := now b + 150,
          pending := (case period ?t of None \<Rightarrow> [] | Some p \<Rightarrow> [?t\<lparr>due := due ?t + p\<rparr>])\<rparr>)"
    using assms by (intro advance_single) (simp_all add: uploading_def)
  then show ?thesis by (simp add: run_callback_def ac_simps)
qed

lemma upload_progress:
  assumes "uploading f i p b" and "p < 100 * random_scale" and "k \<le> 19"
    and "(19 - k) * (5 * random_scale) \<le> p"
  shows "\<exists>j. 1 \<le> j \<and> j \<le> k + 1
      \<and> pending (advance (150 * j) b)
          = [\<lparr>tid = next_id b, due = now b + 150 * j + 500, period = None,
               cb = CbCompleteUpload f\<rparr>]
      \<and> state (advance (150 * j) b) = state b \<and> timers (advance (150 * j) b) = timers b
      \<and> now (advance (150 * j) b) = now b + 150 * j
      \<and> next_id (advance (150 * j) b) = next_id b + 1
      \<and> doc (advance (150 * j) b) = doc b \<and> rng (advance (150 * j) b) = rng b"
  using assms
proof (induction k arbitrary: b p)
  case 0
  let ?b1 = "advance 150 b"
  have b1: "?b1 = progressTick i f p
        (b\<lparr>now := now b + 150,
           pending := [\<lparr>tid = i, due = now b + 300, period = Some 150,
                        cb = CbProgressInterval f p\<rparr>]\<rparr>)"
    using "0.prems"(1) by (rule upload_tick)
  have "(19 + 1) * (5 * random_scale) \<le> next_progress p b"
    using "0.prems"(2,4) by (intro next_progress_grows) simp_all
  then have "100 * random_scale \<le> next_progress p b"
    by simp
  then have "pending ?b1 = [\<lparr>tid = next_id b, due = now b + 150 * 1 + 500, period = None,
               cb = CbCompleteUpload f\<rparr>]
      \<and> state ?b1 = state b \<and> timers ?b1 = timers b \<and> now ?b1 = now b + 150 * 1
      \<and> next_id ?b1 = next_id b + 1 \<and> doc ?b1 = doc b \<and> rng ?b1 = rng b"
    unfolding b1 by (simp add: Let_def next_progress_def)
  then show ?case by (intro exI [of _ 1]) simp
next
  case (Suc k)
  let ?b1 = "advance 150 b"
  let ?p1 = "next_progress p b"
  have b1: "?b1 = progressTick i f p
        (b\<lparr>now := now b + 150,
           pending := [\<lparr>tid = i, due = now b + 300, period = Some 150,
                        cb = CbProgressInterval f p\<rparr>]\<rparr>)"
    using Suc.prems(1) by (rule upload_tick)
  show ?case
  proof (cases "100 * random_scale \<le> ?p1")
    case True
    then have "pending ?b1 = [\<lparr>tid = next_id b, due = now b + 150 * 1 + 500, period = None,
               cb = CbCompleteUpload f\<rparr>]
      \<and> state ?b1 = state b \<and> timers ?b1 = timers b \<and> now ?b1 = now b + 150 * 1
      \<and> next_id ?b1 = next_id b + 1 \<and> doc ?b1 = doc b \<and> rng ?b1 = rng b"
      unfolding b1 by (simp add: Let_def next_progress_def)
    then show ?thesis by (intro exI [of _ 1]) simp
  next
    case False
    then have frame: "state ?b1 = state b" "timers ?b1 = timers b" "now ?b1 = now b + 150"
      "next_id ?b1 = next_id b" "doc ?b1 = doc b" "rng ?b1 = rng b"
      and up: "uploading f i ?p1 ?b1"
      unfolding b1 by (simp_all add: Let_def uploading_def next_progress_def)
    have small: "?p1 < 100 * random_scale"
      using False by simp
    have g: "(19 - Suc k + 1) * (5 * random_scale) \<le> ?p1"
      using Suc.prems(2,4) by (rule next_progress_grows)
    have e: "19 - Suc k + 1 = 19 - k"
      using Suc.prems(3) by simp
    have grown: "(19 - k) * (5 * random_scale) \<le> ?p1"
      using g unfolding e .
    have "k \<le> 19"
      using Suc.prems(3) by simp
    from Suc.IH [OF up small this grown] obtain j where j: "1 \<le> j" "j \<le> k + 1"
      "pending (advance (150 * j) ?b1)
          = [\<lparr>tid = next_id ?b1, due = now ?b1 + 150 * j + 500, period = None,
               cb = CbCompleteUpload f\<rparr>]"
      "state (advance (150 * j) ?b1) = state ?b1" "timers (advance (150 * j) ?b1) = timers ?b1"
      "now (advance (150 * j) ?b1) = now ?b1 + 150 * j"
      "next_id (advance (150 * j) ?b1) = next_id ?b1 + 1"
      "doc (advance (150 * j) ?b1) = doc ?b1" "rng (advance (150 * j) ?b1) = rng ?b1"
      by blast
    have "advance (150 * (j + 1)) b = advance (150 * j) ?b1"
      using advance_add [of 150 "150 * j" b] by (simp add: add.commute)
    then show ?thesis
      using j frame by (intro exI [of _ "j + 1"]) simp
  qed
qed

lemma upload_completes:
  assumes "pending a = []" and "upload_ready a" and "isValidType f" and "file_size f \<le> maxSize"
  shows "state (advance 3500 (handleFileUpload f a)) = (state a)\<lparr>uploadedFile := Some f\<rparr>
    \<and> pending (advance 3500 (handleFileUpload f a)) = []
    \<and> timers (advance 3500 (handleFileUpload f a)) = timers a
    \<and> now (advance 3500 (handleFileUpload f a)) = now a + 3500
    \<and> next_id (advance 3500 (handleFileUpload f a)) = next_id a + 2
    \<and> rng (advance 3500 (handleFileUpload f a)) = rng a
    \<and> present (doc (advance 3500 (handleFileUpload f a))) = present (doc a)
    \<and> disabled (doc (advance 3500 (handleFileUpload f a))) e
        = (if e = ''start-interview'' \<and> has ''start-interview'' a then False
           else disabled (doc a) e)"
proof -
  let ?b = "handleFileUpload f a"
  have b: "?b = showUploadProgress f a"
    using assms(3,4) by (simp add: handleFileUpload_def)
  have up: "uploading f (next_id a) 0 ?b"
    unfolding b using assms(1,2) by (simp add: uploading_def)
  have "(0::nat) < 100 * random_scale" by (simp add: random_scale_def)
  from upload_progress [OF up this, of 19] obtain j where j: "1 \<le> j" "j \<le> 20"
      and c: "pending (advance (150 * j) ?b)
          = [\<lparr>tid = next_id ?b, due = now ?b + 150 * j + 500, period = None,
               cb = CbCompleteUpload f\<rparr>]"
      "state (advance (150 * j) ?b) = state ?b" "timers (advance (150 * j) ?b) = timers ?b"
      "now (advance (150 * j) ?b) = now ?b + 150 * j"
      "next_id (advance (150 * j) ?b) = next_id ?b + 1"
      "doc (advance (150 * j) ?b) = doc ?b" "rng (advance (150 * j) ?b) = rng ?b"
    by auto
  let ?c = "advance (150 * j) ?b"
  let ?t = "\<lparr>tid = next_id ?b, due = now ?b + 150 * j + 500, period = None,
               cb = CbCompleteUpload f\<rparr>"
  let ?e = "completeUpload f (?c\<lparr>now := now ?c + 500, pending := []\<rparr>)"
  have "advance 500 ?c = run_callback (tid ?t) (cb ?t)
       (?c\<lparr>now := now ?c + 500,
          pending := (case period ?t of None \<Rightarrow> [] | Some p \<Rightarrow> [?t\<lparr>due := due ?t + p\<rparr>])\<rparr>)"
    using c by (intro advance_single) simp_all
  then have e: "advance 500 ?c = ?e"
    by (simp add: run_callback_def)
  let ?rest = "3500 - (150 * j + 500)"
  have "3500 = 150 * j + (500 + ?rest)"
    using j by simp
  then have "advance 3500 ?b = advance ?rest (advance 500 ?c)"
    by (metis advance_add)
  also have "\<dots> = ?e\<lparr>now := now ?e + ?rest\<rparr>"
    unfolding e by (rule advance_quiet) simp
  finally have run: "advance 3500 ?b = ?e\<lparr>now := now ?e + ?rest\<rparr>" .
  have "disabled (doc ?e) e
        = (if e = ''start-interview'' \<and> has ''start-interview'' a then False
           else disabled (doc a) e)"
    using c(6) by (simp add: has_def b)
  then show ?thesis
    unfolding run using c j assms(1,2) by (simp add: b has_def)
qed

lemmas name_checks = endsWith_def toLowerCase_def lower_char_def isValidType_def validTypes_def

lemma docx_valid:
  "isValidType \<lparr>file_name = ''resume.docx'', file_type = ty, file_size = n\<rparr>"
  by (simp add: name_checks)

lemma exe_extension:
  "\<not> endsWith (toLowerCase ''resume.exe'') ''.pdf''"
  "\<not> endsWith (toLowerCase ''resume.exe'') ''.docx''"
  "\<not> endsWith (toLowerCase ''resume.exe'') ''.doc''"
  by (simp_all add: name_checks)

text \<open>
  C4. A file whose MIME type is not on the allow-list and whose lower-cased name ends in
  none of \<open>.pdf\<close>, \<open>.docx\<close>, \<open>.doc\<close> is answered with the type message; a file of a valid
  type with more than 10485760 bytes is answered with the size message, a different text.
  \<open>showError\<close> does not touch the session state, so neither failure changes it. A
  \<open>resume.docx\<close> of 2 MiB, whatever its MIME type, starts the progress simulation, which
  leaves the stored file as it is; on a page with the upload widget and with no other timer
  pending, whatever the random increments, the file is the session's uploaded file 3500 ms
  later (at most twenty ticks of 150 ms, then 500 ms).
\<close>

theorem handleFileUpload_validation:
  "(file_type f \<notin> set validTypes \<and> \<not> endsWith (toLowerCase (file_name f)) ''.pdf''
      \<and> \<not> endsWith (toLowerCase (file_name f)) ''.docx''
      \<and> \<not> endsWith (toLowerCase (file_name f)) ''.doc'' \<longrightarrow>
        handleFileUpload f a = showError ''Please upload a PDF or DOCX file'' a)
   \<and> (isValidType f \<and> 10485760 < file_size f \<longrightarrow>
        handleFileUpload f a = showError ''File size must be less than 10MB'' a)
   \<and> state (showError m a) = state a
   \<and> (has ''error-message'' a \<longrightarrow> textContent (doc (showError m a)) ''error-message'' = m)
   \<and> ''Please upload a PDF or DOCX file'' \<noteq> ''File size must be less than 10MB''
   \<and> (pending a = [] \<and> upload_ready a \<longrightarrow>
        uploadedFile (state (handleFileUpload
           \<lparr>file_name = ''resume.docx'', file_type = ty, file_size = 2 * 1024 * 1024\<rparr> a))
          = uploadedFile (state a)
        \<and> uploadedFile (state (advance 3500 (handleFileUpload
           \<lparr>file_name = ''resume.docx'', file_type = ty, file_size = 2 * 1024 * 1024\<rparr> a)))
          = Some \<lparr>file_name = ''resume.docx'', file_type = ty, file_size = 2 * 1024 * 1024\<rparr>)"
proof -
  let ?f = "\<lparr>file_name = ''resume.docx'', file_type = ty, file_size = 2 * 1024 * 1024\<rparr>"
  have "isValidType ?f" by (rule docx_valid)
  moreover have "file_size ?f \<le> maxSize" by (simp add: maxSize_def)
  ultimately have "pending a = [] \<and> upload_ready a \<longrightarrow>
      uploadedFile (state (advance 3500 (handleFileUpload ?f a))) = Some ?f"
    using upload_completes [of a ?f] by simp
  then show ?thesis
    by (simp add: handleFileUpload_def isValidType_def maxSize_def showError_doc)
qed

theorem handleFileUpload_validation_witness:
  "file_type \<lparr>file_name = ''resume.exe'', file_type = ''application/x-msdownload'',
              file_size = 1024\<rparr> \<notin> set validTypes
   \<and> handleFileUpload \<lparr>file_name = ''resume.exe'', file_type = ''application/x-msdownload'',
                        file_size = 1024\<rparr> app0
       = showError ''Please upload a PDF or DOCX file'' app0
   \<and> isValidType \<lparr>file_name = ''resume.pdf'', file_type = ''application/pdf'',
                    file_size = 11 * 1024 * 1024\<rparr>
   \<and> handleFileUpload \<lparr>file_name = ''resume.pdf'', file_type = ''application/pdf'',
                        file_size = 11 * 1024 * 1024\<rparr> app0
       = showError ''File size must be less than 10MB'' app0
   \<and> pending app0 = [] \<and> upload_ready app0
   \<and> uploadedFile (state (advance 3500 (handleFileUpload
         \<lparr>file_name = ''resume.docx'', file_type = [], file_size = 2 * 1024 * 1024\<rparr> app0)))
       = Some \<lparr>file_name = ''resume.docx'', file_type = [], file_size = 2 * 1024 * 1024\<rparr>"
proof -
  have "''upload-area'' \<in> set (present full_page)" "''upload-progress'' \<in> set (present full_page)"
    "''progress-fill'' \<in> set (present full_page)" "''progress-text'' \<in> set (present full_page)"
    by (simp_all add: full_page_def)
  then have h: "pending app0 = []" "upload_ready app0"
    by (simp_all add: app0_def upload_ready_def has_def)
  have t: "file_type \<lparr>file_name = ''resume.exe'', file_type = ''application/x-msdownload'',
              file_size = 1024\<rparr> \<notin> set validTypes"
    by (simp add: validTypes_def)
  have v: "isValidType \<lparr>file_name = ''resume.pdf'', file_type = ''application/pdf'',
                    file_size = 11 * 1024 * 1024\<rparr>"
    by (simp add: isValidType_def validTypes_def)
  show ?thesis
    using handleFileUpload_validation
            [where f = "\<lparr>file_name = ''resume.exe'', file_type = ''application/x-msdownload'',
                  file_size = 1024\<rparr>" and a = app0 and ty = "[]"]
          handleFileUpload_validation
            [where f = "\<lparr>file_name = ''resume.pdf'', file_type = ''application/pdf'',
                  file_size = 11 * 1024 * 1024\<rparr>" and a = app0 and ty = "[]"]
          h t v exe_extension
    by simp
qed

text \<open>
  C10. The type check passes when the MIME type is on the allow-list or the lower-cased
  name ends in \<open>.pdf\<close>, \<open>.docx\<close> or \<open>.doc\<close>; a file with an allow-listed MIME type and an
  admissible size goes on to \<open>showUploadProgress\<close> whatever its name. So \<open>resume.exe\<close>
  sent as \<open>application/pdf\<close>, whose name has none of the three endings, is uploaded and
  becomes the session's file.
\<close>

theorem type_validation_mime_or_extension:
  "isValidType f
     = (file_type f \<in> set validTypes \<or> endsWith (toLowerCase (file_name f)) ''.pdf''
        \<or> endsWith (toLowerCase (file_name f)) ''.docx''
        \<or> endsWith (toLowerCase (file_name f)) ''.doc'')
   \<and> (file_type f \<in> set validTypes \<and> file_size f \<le> maxSize \<longrightarrow>
        handleFileUpload f a = showUploadProgress f a)
   \<and> \<not> endsWith (toLowerCase ''resume.exe'') ''.pdf''
   \<and> \<not> endsWith (toLowerCase ''resume.exe'') ''.docx''
   \<and> \<not> endsWith (toLowerCase ''resume.exe'') ''.doc''
   \<and> (n \<le> maxSize \<and> pending a = [] \<and> upload_ready a \<longrightarrow>
        handleFileUpload \<lparr>file_name = ''resume.exe'', file_type = ''application/pdf'',
                          file_size = n\<rparr> a
          = showUploadProgress \<lparr>file_name = ''resume.exe'', file_type = ''application/pdf'',
                                file_size = n\<rparr> a
        \<and> uploadedFile (state (advance 3500 (handleFileUpload
             \<lparr>file_name = ''resume.exe'', file_type = ''application/pdf'', file_size = n\<rparr> a)))
          = Some \<lparr>file_name = ''resume.exe'', file_type = ''application/pdf'', file_size = n\<rparr>)"
proof -
  let ?f = "\<lparr>file_name = ''resume.exe'', file_type = ''application/pdf'', file_size = n\<rparr>"
  have v: "isValidType ?f" by (simp add: isValidType_def validTypes_def)
  then have "n \<le> maxSize \<and> pending a = [] \<and> upload_ready a \<longrightarrow>
      uploadedFile (state (advance 3500 (handleFileUpload ?f a))) = Some ?f"
    using upload_completes [of a ?f] by simp
  moreover have "n \<le> maxSize \<longrightarrow> handleFileUpload ?f a = showUploadProgress ?f a"
    using v by (simp add: handleFileUpload_def)
  ultimately show ?thesis
    using exe_extension by (simp add: handleFileUpload_def isValidType_def)
qed

theorem type_validation_mime_or_extension_witness:
  "file_type \<lparr>file_name = ''resume.exe'', file_type = ''application/pdf'', file_size = 1024\<rparr>
     \<in> set validTypes
   \<and> (1024::nat) \<le> maxSize \<and> pending app0 = [] \<and> upload_ready app0
   \<and> isValidType \<lparr>file_name = ''resume.exe'', file_type = ''application/pdf'', file_size = 1024\<rparr>
   \<and> uploadedFile (state (advance 3500 (handleFileUpload
         \<lparr>file_name = ''resume.exe'', file_type = ''application/pdf'', file_size = 1024\<rparr> app0)))
       = Some \<lparr>file_name = ''resume.exe'', file_type = ''application/pdf'', file_size = 1024\<rparr>"
proof -
  have "''upload-area'' \<in> set (present full_page)" "''upload-progress'' \<in> set (present full_page)"
    "''progress-fill'' \<in> set (present full_page)" "''progress-text'' \<in> set (present full_page)"
    by (simp_all add: full_page_def)
  then have h: "pending app0 = []" "upload_ready app0"
    by (simp_all add: app0_def upload_ready_def has_def)
  have t: "file_type \<lparr>file_name = ''resume.exe'', file_type = ''application/pdf'',
              file_size = 1024\<rparr> \<in> set validTypes" "(1024::nat) \<le> maxSize"
    by (simp_all add: validTypes_def maxSize_def)
  have "isValidType \<lparr>file_name = ''resume.exe'', file_type = ''application/pdf'',
                     file_size = 1024\<rparr>
     \<and> uploadedFile (state (advance 3500 (handleFileUpload
         \<lparr>file_name = ''resume.exe'', file_type = ''application/pdf'', file_size = 1024\<rparr> app0)))
       = Some \<lparr>file_name = ''resume.exe'', file_type = ''application/pdf'', file_size = 1024\<rparr>"
    using type_validation_mime_or_extension
            [where f = "\<lparr>file_name = ''resume.exe'', file_type = ''application/pdf'',
                  file_size = 1024\<rparr>" and n = 1024 and a = app0] h t
    by blast
  then show ?thesis
    using h t by blast
qed

section \<open>Reset and the timers it does not clear\<close>

lemma find_backend: "find (\<lambda>r. role_id r = ''Backend'') jobRoles = Some backend"
  by (simp add: jobRoles_def backend_def)

lemma backend_questions: "length (questions backend) = 4" "role_id backend = ''Backend''"
  by (simp_all add: jobRoles_def backend_def)

lemma full_page_has:
  "''roles-grid'' \<in> set (present full_page)" "''.logo h1'' \<in> set (present full_page)"
  "''upload-area'' \<in> set (present full_page)" "''file-input'' \<in> set (present full_page)"
  "''upload-progress'' \<in> set (present full_page)" "''progress-fill'' \<in> set (present full_page)"
  "''progress-text'' \<in> set (present full_page)" "''start-interview'' \<in> set (present full_page)"
  "''start-stop-btn'' \<in> set (present full_page)" "''questions-completed'' \<in> set (present full_page)"
  "''role-selection'' \<in> set (present full_page)" "''resume-upload'' \<in> set (present full_page)"
  "''interview-setup'' \<in> set (present full_page)" "''voice-interview'' \<in> set (present full_page)"
  "''interview-complete'' \<in> set (present full_page)"
  by (simp_all add: full_page_def)

lemma app0_ctl:
  "state app0 = initial_state" "timers app0 = no_timers" "pending app0 = []" "now app0 = 0"
  "next_id app0 = 1" "draws app0 = 0" "present (doc app0) = present full_page"
  "cards (doc app0) = map (\<lambda>r. (role_id r, False)) jobRoles"
  "disabled (doc app0) = disabled full_page"
  by (simp_all add: app0_def new_app_cards full_page_has) (simp add: new_app_def renderRoles_def)

lemma backend_card: "''Backend'' \<in> fst ` set (cards (doc app0))"
proof -
  have "role_id backend \<in> role_id ` set jobRoles"
    using backend_in_catalog by blast
  then show ?thesis by (simp add: app0_ctl backend_questions image_image)
qed

lemma click_backend: "handle (ClickRoleCard ''Backend'') app0 = selectRole backend app0"
  using backend_card by (simp add: find_backend has_def app0_ctl full_page_has)

lemma reset_keeps_role_timeout:
  assumes "pending a = []" and "\<not> live (timers a) (next_id a)" and "has ''resume-upload'' a"
  shows "state (resetApp (selectRole r a)) = initial_state"
    and "currentScreen (state (advance 800 (resetApp (selectRole r a)))) = ''resume-upload''"
proof -
  show "state (resetApp (selectRole r a)) = initial_state" by simp
  let ?t = "\<lparr>tid = next_id a, due = now a + 800, period = None, cb = CbShowResumeUpload\<rparr>"
  let ?b = "resetApp (selectRole r a)"
  have p: "pending ?b = [?t]" using assms(1,2) by simp
  have "advance 800 ?b = run_callback (tid ?t) (cb ?t) (?b\<lparr>now := now ?b + 800,
          pending := (case period ?t of None \<Rightarrow> [] | Some p \<Rightarrow> [?t\<lparr>due := due ?t + p\<rparr>])\<rparr>)"
    using p by (intro advance_single) simp_all
  then have "advance 800 ?b = showScreen ''resume-upload'' (?b\<lparr>now := now ?b + 800, pending := []\<rparr>)"
    by (simp add: run_callback_def)
  then show "currentScreen (state (advance 800 (resetApp (selectRole r a)))) = ''resume-upload''"
    using assms(3) by (simp add: has_def)
qed

text \<open>
  C2. The scenario that breaks the claim: on the full page the user picks the Backend card
  and clicks the logo before the 800 ms have passed. \<open>resetApp\<close> puts the session state
  back to its defaults, but the timeout of \<open>selectRole\<close> was never stored in
  \<open>this.timers\<close>, so \<open>clearTimers\<close> leaves it in the queue: 800 ms later it fires and the
  current screen changes to \<open>resume-upload\<close>.
\<close>

theorem reset_leaves_role_timeout:
  "state (run [ClickRoleCard ''Backend'', ClickLogo] app0) = initial_state
   \<and> currentScreen (state (run [ClickRoleCard ''Backend'', ClickLogo] app0)) = ''role-selection''
   \<and> currentScreen (state (run [ClickRoleCard ''Backend'', ClickLogo, Wait 800] app0))
       = ''resume-upload''"
proof -
  have logo: "handle ClickLogo (selectRole backend app0) = resetApp (selectRole backend app0)"
    by (simp add: has_def app0_ctl full_page_has)
  have "run [ClickRoleCard ''Backend'', ClickLogo] app0 = resetApp (selectRole backend app0)"
    unfolding run_def foldl_Cons foldl_Nil click_backend logo ..
  moreover have "run [ClickRoleCard ''Backend'', ClickLogo, Wait 800] app0
      = advance 800 (resetApp (selectRole backend app0))"
    unfolding run_def foldl_Cons foldl_Nil click_backend logo by simp
  moreover have "pending app0 = []" "\<not> live (timers app0) (next_id app0)" "has ''resume-upload'' app0"
    by (simp_all add: app0_ctl has_def full_page_has)
  ultimately show ?thesis
    using reset_keeps_role_timeout [of app0 backend] by (simp add: initial_state_def)
qed

section \<open>The question cycle\<close>

lemma same_page_refl [simp]: "same_page a a"
  by (simp add: same_page_def)

lemma same_page_trans: "same_page a b \<Longrightarrow> same_page b c \<Longrightarrow> same_page a c"
  by (simp add: same_page_def)

lemma in_flow_clock_tick:
  assumes "in_flow r ci c fi d k i b" and "c \<le> d"
  shows "in_flow r ci (c + 1000) fi d k i (fire ci (b\<lparr>now := c\<rparr>))"
    and "now (fire ci (b\<lparr>now := c\<rparr>)) = c"
    and "next_id (fire ci (b\<lparr>now := c\<rparr>)) = next_id b"
    and "draws (fire ci (b\<lparr>now := c\<rparr>)) = draws b"
    and "same_page b (fire ci (b\<lparr>now := c\<rparr>))"
proof -
  have f: "fire ci (b\<lparr>now := c\<rparr>)
      = interviewClock (b\<lparr>now := c,
          pending := [clock_timer ci (c + 1000), \<lparr>tid = fi, due = d, period = None, cb = k\<rparr>]\<rparr>)"
    using assms(1) by (simp add: fire_def clock_timer_def run_callback_def in_flow_def)
  show "now (fire ci (b\<lparr>now := c\<rparr>)) = c" "next_id (fire ci (b\<lparr>now := c\<rparr>)) = next_id b"
    "draws (fire ci (b\<lparr>now := c\<rparr>)) = draws b" "same_page b (fire ci (b\<lparr>now := c\<rparr>))"
    unfolding f by (simp_all add: same_page_def)
  show "in_flow r ci (c + 1000) fi d k i (fire ci (b\<lparr>now := c\<rparr>))"
    unfolding f using assms by (simp add: in_flow_def)
qed

text \<open>Letting the clock run up to the moment the flow timer is due.\<close>

lemma in_flow_catch_up:
  assumes "in_flow r ci c fi d k i b" and "now b < d"
  shows "\<exists>b' c'. advance (d - now b) b = fire fi b' \<and> in_flow r ci c' fi d k i b'
      \<and> now b' = d \<and> next_id b' = next_id b \<and> draws b' = draws b \<and> same_page b b'"
  using assms
proof (induction "d - now b" arbitrary: b c rule: less_induct)
  case less
  have p: "pending b = [clock_timer ci c, \<lparr>tid = fi, due = d, period = None, cb = k\<rparr>]"
    and c: "now b < c" and ne: "ci \<noteq> fi"
    using less.prems(1) by (simp_all add: in_flow_def)
  consider (before) "c < d" | (same) "c = d" | (after) "d < c"
    by linarith
  then show ?case
  proof cases
    case before
    let ?b1 = "fire ci (b\<lparr>now := c\<rparr>)"
    have "advance (c - now b) b = run_due (b\<lparr>now := now b + (c - now b)\<rparr>)"
      using p c before by (intro advance_until) (simp_all add: clock_timer_def)
    also have "\<dots> = ?b1"
      using p c before by (simp add: run_due_def clock_timer_def)
    finally have a1: "advance (c - now b) b = ?b1" .
    have t: "in_flow r ci (c + 1000) fi d k i ?b1" "now ?b1 = c" "next_id ?b1 = next_id b"
      "draws ?b1 = draws b" "same_page b ?b1"
      using in_flow_clock_tick [OF less.prems(1)] before by simp_all
    have "d - now ?b1 < d - now b" "now ?b1 < d"
      using t(2) c before by simp_all
    from less.hyps [OF this(1) t(1) this(2)] obtain b' c' where
      b': "advance (d - now ?b1) ?b1 = fire fi b'" "in_flow r ci c' fi d k i b'"
        "now b' = d" "next_id b' = next_id ?b1" "draws b' = draws ?b1" "same_page ?b1 b'"
      by blast
    have "d - now b = (c - now b) + (d - now ?b1)"
      using t(2) c before by simp
    then have "advance (d - now b) b = advance (d - now ?b1) (advance (c - now b) b)"
      by (metis advance_add)
    then have "advance (d - now b) b = fire fi b'"
      by (simp add: a1 b'(1))
    then show ?thesis
      using b' t same_page_trans by metis
  next
    case same
    let ?b1 = "fire ci (b\<lparr>now := c\<rparr>)"
    have t: "in_flow r ci (c + 1000) fi d k i ?b1" "now ?b1 = c" "next_id ?b1 = next_id b"
      "draws ?b1 = draws b" "same_page b ?b1"
      using in_flow_clock_tick [OF less.prems(1)] same by simp_all
    have "advance (d - now b) b = run_due (b\<lparr>now := now b + (d - now b)\<rparr>)"
      using p c same by (intro advance_until) (simp_all add: clock_timer_def)
    also have "\<dots> = fire fi ?b1"
      using p c same by (simp add: run_due_def clock_timer_def)
    finally show ?thesis
      using t same by blast
  next
    case after
    let ?b1 = "b\<lparr>now := d\<rparr>"
    have "advance (d - now b) b = run_due (b\<lparr>now := now b + (d - now b)\<rparr>)"
      using p c after less.prems(2) by (intro advance_until) (simp_all add: clock_timer_def)
    also have "\<dots> = fire fi ?b1"
      using p c after less.prems(2) by (simp add: run_due_def clock_timer_def)
    finally have "advance (d - now b) b = fire fi ?b1" .
    moreover have "in_flow r ci c fi d k i ?b1"
      using less.prems(1) after by (simp add: in_flow_def)
    ultimately show ?thesis
      by (intro exI [of _ ?b1] exI [of _ c]) (simp add: same_page_def)
  qed
qed

lemma speaking_time_bounds: "10000 \<le> speaking_time b" "speaking_time b \<le> 20000"
proof -
  let ?u = "rng b (draws b) mod random_scale"
  let ?y = "to_double (?u * 10000)"
  let ?s = "to_double (10000 * random_scale + ?y)"
  have "?u < random_scale"
    by (simp add: random_scale_def)
  then have y: "?y \<le> 10000 * random_scale"
    by (rule random_product) simp
  then have "10000 * random_scale + ?y < 2 ^ 53 * random_scale"
    by (simp add: random_scale_def)
  then have lo: "10000 * random_scale \<le> ?s" and hi: "?s \<le> 20000 * random_scale"
    using y to_double_whole [of "10000 * random_scale + ?y" 10000]
      to_double_whole [of "10000 * random_scale + ?y" 20000] by simp_all
  have "10000 * random_scale div random_scale \<le> ?s div random_scale"
    using lo by (rule div_le_mono)
  moreover have "?s div random_scale \<le> 20000 * random_scale div random_scale"
    using hi by (rule div_le_mono)
  ultimately
  have "10000 \<le> ?s div random_scale" and "?s div random_scale \<le> 20000"
    by (simp_all add: random_scale_def)
  then show "10000 \<le> speaking_time b" "speaking_time b \<le> 20000"
    by (simp_all add: speaking_time_def)
qed

lemma fire_flow:
  assumes "in_flow r ci c fi d k i b"
  shows "fire fi b = run_callback fi k (b\<lparr>pending := [clock_timer ci c]\<rparr>)"
  using assms by (simp add: in_flow_def fire_def clock_timer_def)

lemma fire_question_spoken:
  assumes "in_flow r ci c fi d CbQuestionSpoken i b" and "now b = d"
  shows "in_flow r ci c (next_id b) (d + speaking_time b) CbUserSpoke i (fire fi b)"
    and "now (fire fi b) = d" and "same_page b (fire fi b)"
  unfolding fire_flow [OF assms(1)] using assms
  by (simp_all add: run_callback_def in_flow_def speaking_time_def same_page_def)

lemma fire_user_spoke:
  assumes "in_flow r ci c fi d CbUserSpoke i b" and "now b = d"
  shows "in_flow r ci c (next_id b) (d + 3000) CbResponseSpoken i (fire fi b)"
    and "now (fire fi b) = d" and "same_page b (fire fi b)"
  unfolding fire_flow [OF assms(1)] using assms
  by (simp_all add: run_callback_def in_flow_def same_page_def)

lemma fire_response_spoken_next:
  assumes "in_flow r ci c fi d CbResponseSpoken i b" and "now b = d"
    and "i + 1 < length (questions r)"
  shows "in_flow r ci c (next_id b) (d + 3000) CbQuestionSpoken (i + 1) (fire fi b)"
    and "now (fire fi b) = d" and "same_page b (fire fi b)"
  unfolding fire_flow [OF assms(1)] using assms
  by (simp_all add: run_callback_def in_flow_def same_page_def getCurrentQuestions_def)

lemma completeInterview_text:
  assumes "has ''questions-completed'' a" and "selectedRole (state a) = Some r"
  shows "textContent (doc (completeInterview a)) ''questions-completed''
    = show_nat (min (currentQuestionIndex (state a) + 1) (length (questions r)))
        @ ''/'' @ show_nat (length (questions r))"
  using assms
  by (simp add: completeInterview_def seq_def on_def has_def set_textContent_def Let_def
        getCurrentQuestions_def)

lemma fire_response_spoken_last:
  assumes "in_flow r ci c fi d CbResponseSpoken i b" and "now b = d"
    and "i + 1 = length (questions r)"
    and "has ''questions-completed'' b" and "has ''interview-complete'' b"
  shows "finished r (fire fi b)"
proof -
  let ?b1 = "b\<lparr>pending := [clock_timer ci c]\<rparr>"
  let ?b2 = "?b1\<lparr>state := (state ?b1)\<lparr>currentQuestionIndex := currentQuestionIndex (state ?b1) + 1\<rparr>\<rparr>"
  have "fire fi b = responseSpoken ?b1"
    unfolding fire_flow [OF assms(1)] by (simp add: run_callback_def)
  also have "\<dots> = completeInterview ?b2"
    using assms(1,3) by (simp add: responseSpoken_def Let_def in_flow_def getCurrentQuestions_def)
  finally have f: "fire fi b = completeInterview ?b2" .
  have "textContent (doc (completeInterview ?b2)) ''questions-completed''
    = show_nat (min (currentQuestionIndex (state ?b2) + 1) (length (questions r)))
        @ ''/'' @ show_nat (length (questions r))"
    using assms(1,4) by (intro completeInterview_text) (simp_all add: has_def in_flow_def)
  then show ?thesis
    unfolding f using assms
    by (simp add: finished_def in_flow_def has_def live_def clock_timer_def)
qed

lemma same_page_has: "same_page a b \<Longrightarrow> has e b = has e a"
  by (simp add: same_page_def has_def)

lemma flowing_question:
  assumes "flowing r CbQuestionSpoken i t b" and "0 < t"
  shows "\<exists>b'. same_page b b' \<and> flowing r CbUserSpoke i (speaking_time b') (advance t b)"
    and "same_page b (advance t b)"
proof -
  obtain ci c fi where f: "in_flow r ci c fi (now b + t) CbQuestionSpoken i b"
    using assms(1) by (auto simp: flowing_def)
  from in_flow_catch_up [OF f] assms(2) obtain b' c' where
    b': "advance (now b + t - now b) b = fire fi b'"
      "in_flow r ci c' fi (now b + t) CbQuestionSpoken i b'" "now b' = now b + t" "same_page b b'"
    by auto
  have a: "advance t b = fire fi b'" using b'(1) by simp
  have n: "in_flow r ci c' (next_id b') (now b + t + speaking_time b') CbUserSpoke i (fire fi b')"
    "now (fire fi b') = now b + t" "same_page b' (fire fi b')"
    using fire_question_spoken [OF b'(2,3)] by simp_all
  then have "flowing r CbUserSpoke i (speaking_time b') (advance t b)"
    unfolding a flowing_def by auto
  then show "\<exists>b'. same_page b b' \<and> flowing r CbUserSpoke i (speaking_time b') (advance t b)"
    using b'(4) by blast
  show "same_page b (advance t b)"
    unfolding a using b'(4) n(3) by (rule same_page_trans)
qed

lemma flowing_user:
  assumes "flowing r CbUserSpoke i t b" and "0 < t"
  shows "flowing r CbResponseSpoken i 3000 (advance t b)" and "same_page b (advance t b)"
proof -
  obtain ci c fi where f: "in_flow r ci c fi (now b + t) CbUserSpoke i b"
    using assms(1) by (auto simp: flowing_def)
  from in_flow_catch_up [OF f] assms(2) obtain b' c' where
    b': "advance (now b + t - now b) b = fire fi b'"
      "in_flow r ci c' fi (now b + t) CbUserSpoke i b'" "now b' = now b + t" "same_page b b'"
    by auto
  have a: "advance t b = fire fi b'" using b'(1) by simp
  have n: "in_flow r ci c' (next_id b') (now b + t + 3000) CbResponseSpoken i (fire fi b')"
    "now (fire fi b') = now b + t" "same_page b' (fire fi b')"
    using fire_user_spoke [OF b'(2,3)] by simp_all
  then show "flowing r CbResponseSpoken i 3000 (advance t b)"
    unfolding a flowing_def by auto
  show "same_page b (advance t b)"
    unfolding a using b'(4) n(3) by (rule same_page_trans)
qed

lemma flowing_response_next:
  assumes "flowing r CbResponseSpoken i t b" and "0 < t" and "i + 1 < length (questions r)"
  shows "flowing r CbQuestionSpoken (i + 1) 3000 (advance t b)" and "same_page b (advance t b)"
proof -
  obtain ci c fi where f: "in_flow r ci c fi (now b + t) CbResponseSpoken i b"
    using assms(1) by (auto simp: flowing_def)
  from in_flow_catch_up [OF f] assms(2) obtain b' c' where
    b': "advance (now b + t - now b) b = fire fi b'"
      "in_flow r ci c' fi (now b + t) CbResponseSpoken i b'" "now b' = now b + t" "same_page b b'"
    by auto
  have a: "advance t b = fire fi b'" using b'(1) by simp
  have n: "in_flow r ci c' (next_id b') (now b + t + 3000) CbQuestionSpoken (i + 1) (fire fi b')"
    "now (fire fi b') = now b + t" "same_page b' (fire fi b')"
    using fire_response_spoken_next [OF b'(2,3) assms(3)] by simp_all
  then show "flowing r CbQuestionSpoken (i + 1) 3000 (advance t b)"
    unfolding a flowing_def by auto
  show "same_page b (advance t b)"
    unfolding a using b'(4) n(3) by (rule same_page_trans)
qed

lemma flowing_response_last:
  assumes "flowing r CbResponseSpoken i t b" and "0 < t" and "i + 1 = length (questions r)"
    and "has ''questions-completed'' b" and "has ''interview-complete'' b"
  shows "finished r (advance t b)"
proof -
  obtain ci c fi where f: "in_flow r ci c fi (now b + t) CbResponseSpoken i b"
    using assms(1) by (auto simp: flowing_def)
  from in_flow_catch_up [OF f] assms(2) obtain b' c' where
    b': "advance (now b + t - now b) b = fire fi b'"
      "in_flow r ci c' fi (now b + t) CbResponseSpoken i b'" "now b' = now b + t" "same_page b b'"
    by auto
  have a: "advance t b = fire fi b'" using b'(1) by simp
  have "has ''questions-completed'' b'" "has ''interview-complete'' b'"
    using assms(4,5) same_page_has [OF b'(4)] by simp_all
  then show ?thesis
    unfolding a using fire_response_spoken_last [OF b'(2,3) assms(3)] by simp
qed

text \<open>One question cycle takes at most 26 s; the interview ends after the last one.\<close>

lemma interview_runs:
  assumes "flowing r CbQuestionSpoken i t b" and "0 < t" and "t \<le> 3000"
    and "i < length (questions r)"
    and "has ''questions-completed'' b" and "has ''interview-complete'' b"
  shows "\<exists>T. T \<le> 26000 * (length (questions r) - i) \<and> finished r (advance T b)"
  using assms
proof (induction "length (questions r) - i" arbitrary: i t b)
  case 0
  then show ?case by simp
next
  case (Suc m)
  obtain sp where sp: "10000 \<le> sp" "sp \<le> 20000"
      "flowing r CbUserSpoke i sp (advance t b)"
    using flowing_question(1) [OF Suc.prems(1,2)] speaking_time_bounds by blast
  let ?b1 = "advance t b"
  let ?b2 = "advance sp ?b1"
  let ?b3 = "advance 3000 ?b2"
  have p1: "same_page b ?b1" using flowing_question(2) [OF Suc.prems(1,2)] .
  have f2: "flowing r CbResponseSpoken i 3000 ?b2" and p2: "same_page ?b1 ?b2"
    using flowing_user [OF sp(3)] sp(1) by simp_all
  have b3: "advance (t + sp + 3000) b = ?b3"
    by (simp add: advance_add)
  have h2: "has ''questions-completed'' ?b2" "has ''interview-complete'' ?b2"
    using Suc.prems(5,6) same_page_has [OF p1] same_page_has [OF p2] by simp_all
  show ?case
  proof (cases "i + 1 < length (questions r)")
    case True
    have f3: "flowing r CbQuestionSpoken (i + 1) 3000 ?b3" and p3: "same_page ?b2 ?b3"
      using flowing_response_next [OF f2 _ True] by simp_all
    have h3: "has ''questions-completed'' ?b3" "has ''interview-complete'' ?b3"
      using h2 same_page_has [OF p3] by simp_all
    have "m = length (questions r) - (i + 1)"
      using Suc.hyps(2) by simp
    from Suc.hyps(1) [OF this f3 _ _ True h3] obtain T where
      T: "T \<le> 26000 * (length (questions r) - (i + 1))" "finished r (advance T ?b3)"
      by auto
    have "advance (t + sp + 3000 + T) b = advance T ?b3"
      using b3 by (simp add: advance_add)
    moreover have "t + sp + 3000 + T \<le> 26000 * (length (questions r) - i)"
      using T(1) sp(2) Suc.prems(3) True by simp
    ultimately show ?thesis
      using T(2) by metis
  next
    case False
    then have l: "i + 1 = length (questions r)"
      using Suc.prems(4) by simp
    have "finished r ?b3"
      using flowing_response_last [OF f2 _ l h2] by simp
    moreover have "t + sp + 3000 \<le> 26000 * (length (questions r) - i)"
      using sp(2) Suc.prems(3) l by simp
    ultimately show ?thesis
      using b3 by metis
  qed
qed

lemma finished_later: "finished r b \<Longrightarrow> finished r (advance n b)"
proof -
  assume f: "finished r b"
  then have "pending b = []" by (simp add: finished_def)
  then have "advance n b = b\<lparr>now := now b + n\<rparr>" by (rule advance_quiet)
  then show ?thesis using f by (simp add: finished_def)
qed

lemma toggle_starts_flow:
  assumes "\<not> interviewActive (state a)" and "pending a = []"
    and "selectedRole (state a) = Some r" and "0 < next_id a"
  shows "flowing r CbQuestionSpoken 0 3000 (toggleInterview a)"
  unfolding flowing_def
  using assms
  by (intro exI [of _ "next_id a"] exI [of _ "now a + 1000"] exI [of _ "next_id a + 1"])
     (simp add: in_flow_def clock_timer_def)

lemma interview_completes:
  assumes "\<not> interviewActive (state a)" and "pending a = []"
    and "selectedRole (state a) = Some r" and "0 < next_id a"
    and "0 < length (questions r)"
    and "has ''questions-completed'' a" and "has ''interview-complete'' a"
    and "26000 * length (questions r) \<le> T"
  shows "finished r (advance T (toggleInterview a))"
proof -
  let ?b = "toggleInterview a"
  have "flowing r CbQuestionSpoken 0 3000 ?b"
    using assms(1-4) by (rule toggle_starts_flow)
  moreover have "has ''questions-completed'' ?b" "has ''interview-complete'' ?b"
    using assms(6,7) by (simp_all add: has_def)
  ultimately obtain T0 where T0: "T0 \<le> 26000 * (length (questions r) - 0)"
      "finished r (advance T0 ?b)"
    using interview_runs [of r 0 3000 ?b] assms(5) by auto
  have "T = T0 + (T - T0)"
    using T0(1) assms(8) by simp
  then have "advance T ?b = advance (T - T0) (advance T0 ?b)"
    by (metis advance_add)
  then show ?thesis
    using finished_later [OF T0(2)] by simp
qed

section \<open>The setup sequence\<close>

lemma setup_runs:
  assumes "pending a = []"
  shows "state (advance 4500 (startInterviewSetup a)) = state (startInterviewSetup a)"
    and "timers (advance 4500 (startInterviewSetup a))
          = (timers a)\<lparr>h_setup := Some (next_id a + 2)\<rparr>"
    and "pending (advance 4500 (startInterviewSetup a))
          = [\<lparr>tid = next_id a + 3, due = now a + 5500, period = None,
               cb = CbStartVoiceInterview\<rparr>]"
    and "now (advance 4500 (startInterviewSetup a)) = now a + 4500"
    and "next_id (advance 4500 (startInterviewSetup a)) = next_id a + 4"
    and "rng (advance 4500 (startInterviewSetup a)) = rng a"
    and "present (doc (advance 4500 (startInterviewSetup a))) = present (doc a)"
    and "disabled (doc (advance 4500 (startInterviewSetup a))) = disabled (doc a)"
proof -
  let ?b0 = "startInterviewSetup a"
  let ?b1 = "processStep 1 (?b0\<lparr>now := now ?b0 + 1500, pending := []\<rparr>)"
  let ?b2 = "processStep 2 (?b1\<lparr>now := now ?b1 + 1500, pending := []\<rparr>)"
  let ?b3 = "processStep 3 (?b2\<lparr>now := now ?b2 + 1500, pending := []\<rparr>)"
  have 1: "advance 1500 ?b0 = ?b1"
    using assms advance_timeout [of ?b0 "next_id a" 1500 "CbProcessStep 1"]
    by (simp add: run_callback_def)
  have 2: "advance 1500 ?b1 = ?b2"
    using assms advance_timeout [of ?b1 "next_id a + 1" 1500 "CbProcessStep 2"]
    by (simp add: run_callback_def)
  have 3: "advance 1500 ?b2 = ?b3"
    using assms advance_timeout [of ?b2 "next_id a + 2" 1500 "CbProcessStep 3"]
    by (simp add: run_callback_def)
  have "advance (1500 + (1500 + 1500)) ?b0 = ?b3"
    unfolding advance_add 1 2 3 ..
  then have r: "advance 4500 ?b0 = ?b3" by simp
  show "state (advance 4500 ?b0) = state ?b0"
    "timers (advance 4500 ?b0) = (timers a)\<lparr>h_setup := Some (next_id a + 2)\<rparr>"
    "pending (advance 4500 ?b0)
          = [\<lparr>tid = next_id a + 3, due = now a + 5500, period = None,
               cb = CbStartVoiceInterview\<rparr>]"
    "now (advance 4500 ?b0) = now a + 4500"
    "next_id (advance 4500 ?b0) = next_id a + 4"
    "rng (advance 4500 ?b0) = rng a"
    "present (doc (advance 4500 ?b0)) = present (doc a)"
    "disabled (doc (advance 4500 ?b0)) = disabled (doc a)"
    unfolding r using assms by simp_all
qed

lemma setup_completes:
  assumes "pending a = []"
  shows "advance 5500 (startInterviewSetup a)
    = startVoiceInterview ((advance 4500 (startInterviewSetup a))
        \<lparr>now := now a + 5500, pending := []\<rparr>)"
proof -
  let ?b3 = "advance 4500 (startInterviewSetup a)"
  have "advance 1000 ?b3 = run_callback (next_id a + 3) CbStartVoiceInterview
      (?b3\<lparr>now := now ?b3 + 1000, pending := []\<rparr>)"
    using setup_runs [OF assms] by (intro advance_timeout) simp_all
  moreover have "advance (4500 + 1000) (startInterviewSetup a) = advance 1000 ?b3"
    unfolding advance_add ..
  ultimately show ?thesis
    using setup_runs(4) [OF assms] by (simp add: run_callback_def ac_simps)
qed

text \<open>Reset while the last timeout of the setup sequence is pending.\<close>

lemma reset_keeps_setup_timeout:
  assumes "pending a = []" and "has ''voice-interview'' a"
    and "h_interview (timers a) \<noteq> Some (next_id a + 3)"
    and "h_avatar (timers a) \<noteq> Some (next_id a + 3)"
  shows "state (resetApp (advance 4500 (startInterviewSetup a))) = initial_state"
    and "currentScreen (state (advance 1000 (resetApp (advance 4500 (startInterviewSetup a)))))
          = ''voice-interview''"
proof -
  let ?b3 = "advance 4500 (startInterviewSetup a)"
  let ?r = "resetApp ?b3"
  show "state ?r = initial_state" by simp
  have "pending ?r = [\<lparr>tid = next_id a + 3, due = now ?r + 1000, period = None,
               cb = CbStartVoiceInterview\<rparr>]"
    using setup_runs [OF assms(1)] assms(3,4) by (simp add: live_def)
  then have "advance 1000 ?r = run_callback (next_id a + 3) CbStartVoiceInterview
      (?r\<lparr>now := now ?r + 1000, pending := []\<rparr>)"
    by (intro advance_timeout) simp_all
  then show "currentScreen (state (advance 1000 ?r)) = ''voice-interview''"
    using assms(2) setup_runs(7) [OF assms(1)] by (simp add: run_callback_def has_def)
qed

section \<open>The full scenario\<close>

lemma run_append: "run (xs @ ys) a = run ys (run xs a)"
  by (simp add: run_def)

lemma run_Cons: "run (x # xs) a = run xs (handle x a)"
  by (simp add: run_def)

lemma run_Nil: "run [] a = a"
  by (simp add: run_def)

lemma full_page_flags:
  "\<not> disabled full_page ''start-stop-btn''" "\<not> disabled full_page ''end-interview''"
  "''end-interview'' \<in> set (present full_page)"
  by (simp_all add: full_page_def)

lemma click_backend_new:
  "handle (ClickRoleCard ''Backend'') (new_app full_page g t0)
     = selectRole backend (new_app full_page g t0)"
proof -
  have "role_id backend \<in> role_id ` set jobRoles"
    using backend_in_catalog by blast
  then have "''Backend'' \<in> fst ` set (cards (doc (new_app full_page g t0)))"
    by (simp add: new_app_cards full_page_has backend_questions image_image)
  then show ?thesis
    by (simp add: find_backend has_def full_page_has)
qed

lemma resume_docx_ok: "isValidType resume_docx" "file_size resume_docx \<le> maxSize"
  by (simp_all add: resume_docx_def isValidType_def validTypes_def maxSize_def)

text \<open>The state in which the user has uploaded the file, and the one in which the
  voice-interview screen has appeared.\<close>

lemma uploaded_state:
  fixes g t0
  defines "u \<equiv> run to_upload (new_app full_page g t0)"
  shows "state u = initial_state\<lparr>selectedRole := Some backend,
                currentScreen := ''resume-upload'', uploadedFile := Some resume_docx\<rparr>"
    and "pending u = []" and "next_id u = 4" and "rng u = g" and "timers u = no_timers"
    and "present (doc u) = present full_page"
    and "disabled (doc u) e = (if e = ''start-interview'' then False else disabled full_page e)"
    and "now u = t0 + 4300"
proof -
  let ?a0 = "new_app full_page g t0"
  let ?a1 = "advance 800 (selectRole backend ?a0)"
  let ?a2 = "advance 3500 (handleFileUpload resume_docx ?a1)"
  have a1: "?a1 = showScreen ''resume-upload''
                   ((selectRole backend ?a0)\<lparr>now := now ?a0 + 800, pending := []\<rparr>)"
    by (rule selectRole_then_wait) simp
  have f1: "state ?a1 = initial_state\<lparr>selectedRole := Some backend,
                currentScreen := ''resume-upload''\<rparr>"
    "pending ?a1 = []" "next_id ?a1 = 2" "rng ?a1 = g" "timers ?a1 = no_timers"
    "present (doc ?a1) = present full_page" "disabled (doc ?a1) = disabled full_page"
    "now ?a1 = t0 + 800"
    unfolding a1 by (simp_all add: has_def full_page_has) (simp add: new_app_def renderRoles_def)
  have u: "upload_ready ?a1" "upload_bound ?a1" "has ''start-interview'' ?a1"
    by (simp_all add: upload_ready_def upload_bound_def has_def f1 full_page_has)
  note up = upload_completes [OF f1(2) u(1) resume_docx_ok]
  have h1: "handle (ChooseFiles [resume_docx]) ?a1 = handleFileUpload resume_docx ?a1"
    using u(2) by simp
  have "u = ?a2"
    unfolding u_def to_upload_def run_Cons run_Nil click_backend_new handle.simps(13) h1 ..
  then show "state u = initial_state\<lparr>selectedRole := Some backend,
                currentScreen := ''resume-upload'', uploadedFile := Some resume_docx\<rparr>"
    and "pending u = []" and "next_id u = 4" and "rng u = g" and "timers u = no_timers"
    and "present (doc u) = present full_page"
    and "disabled (doc u) e = (if e = ''start-interview'' then False else disabled full_page e)"
    and "now u = t0 + 4300"
    using up u(3) by (simp_all add: f1)
qed

lemma click_start:
  "handle ClickStartInterview (run to_upload (new_app full_page g t0))
     = startInterviewSetup (run to_upload (new_app full_page g t0))"
  by (simp add: clickable_def has_def uploaded_state full_page_has)

lemma voice_ready:
  fixes g t0
  defines "v \<equiv> run to_interview (new_app full_page g t0)"
  shows "state v = initial_state\<lparr>selectedRole := Some backend, uploadedFile := Some resume_docx,
                     currentScreen := ''voice-interview'', avatarState := ''ready''\<rparr>"
    and "pending v = []" and "next_id v = 8" and "rng v = g"
    and "present (doc v) = present full_page"
    and "disabled (doc v) ''start-stop-btn'' = False"
    and "timers v = no_timers\<lparr>h_setup := Some 6\<rparr>" and "now v = t0 + 9800"
proof -
  let ?u = "run to_upload (new_app full_page g t0)"
  let ?a3 = "advance 5500 (startInterviewSetup ?u)"
  note f2 = uploaded_state [of g t0]
  have a3: "?a3 = startVoiceInterview ((advance 4500 (startInterviewSetup ?u))
        \<lparr>now := now ?u + 5500, pending := []\<rparr>)"
    using f2(2) by (rule setup_completes)
  note sr = setup_runs [OF f2(2)]
  have v: "v = ?a3"
    unfolding v_def to_interview_def run_append run_Cons run_Nil click_start handle.simps(13) ..
  show "state v = initial_state\<lparr>selectedRole := Some backend, uploadedFile := Some resume_docx,
                     currentScreen := ''voice-interview'', avatarState := ''ready''\<rparr>"
    and "pending v = []" and "next_id v = 8" and "rng v = g"
    and "present (doc v) = present full_page"
    and "timers v = no_timers\<lparr>h_setup := Some 6\<rparr>" and "now v = t0 + 9800"
    unfolding v a3 using sr by (simp_all add: has_def f2 full_page_has initial_state_def)
  have "\<And>e. disabled (doc ?a3) e = disabled (doc ?u) e"
    unfolding a3 using sr(8) by simp
  then show "disabled (doc v) ''start-stop-btn'' = False"
    unfolding v by (simp add: f2 full_page_flags)
qed

lemma click_toggle:
  "handle ClickStartStop (run to_interview (new_app full_page g t0))
     = toggleInterview (run to_interview (new_app full_page g t0))"
  by (simp add: clickable_def has_def voice_ready full_page_has)

lemma show_nat_4: "show_nat 4 = ''4''" "show_nat (Suc 0) = ''1''"
  by code_simp+

text \<open>
  C5. \<open>completeInterview\<close> writes \<open>min (index + 1) total\<close> and \<open>total\<close> into the
  questions-completed element, so the count shown never exceeds the role's number of
  questions. The full scenario on the full page, for every random sequence: the user picks
  Backend, uploads a file, starts the setup, reaches the voice-interview screen and
  presses start; once 104 s have passed (four cycles of at most 26 s each) the
  completion screen is shown with \<open>4/4\<close>.
\<close>

theorem questions_completed_capped:
  "(has ''questions-completed'' a \<and> selectedRole (state a) = Some r \<longrightarrow>
       textContent (doc (completeInterview a)) ''questions-completed''
         = show_nat (min (currentQuestionIndex (state a) + 1) (length (questions r)))
             @ ''/'' @ show_nat (length (questions r))
       \<and> min (currentQuestionIndex (state a) + 1) (length (questions r)) \<le> length (questions r))
   \<and> (104000 \<le> T \<longrightarrow>
       currentScreen (state (run (to_interview @ [ClickStartStop, Wait T])
                               (new_app full_page g t0))) = ''interview-complete''
       \<and> textContent (doc (run (to_interview @ [ClickStartStop, Wait T])
                               (new_app full_page g t0))) ''questions-completed'' = ''4/4''
       \<and> currentQuestionIndex (state (run (to_interview @ [ClickStartStop, Wait T])
                               (new_app full_page g t0))) = 4)"
proof -
  let ?v = "run to_interview (new_app full_page g t0)"
  have r: "run (to_interview @ [ClickStartStop, Wait T]) (new_app full_page g t0)
      = advance T (toggleInterview ?v)"
    unfolding run_append run_Cons run_Nil click_toggle by simp
  have "104000 \<le> T \<longrightarrow> finished backend (advance T (toggleInterview ?v))"
  proof
    assume "104000 \<le> T"
    then have "26000 * length (questions backend) \<le> T"
      by (simp add: backend_questions)
    then show "finished backend (advance T (toggleInterview ?v))"
      by (intro interview_completes)
         (simp_all add: voice_ready has_def full_page_has backend_questions initial_state_def)
  qed
  then show ?thesis
    unfolding r by (simp add: completeInterview_text finished_def backend_questions show_nat_4)
qed

theorem questions_completed_capped_witness:
  "has ''questions-completed'' (selectRole backend app0)
   \<and> selectedRole (state (selectRole backend app0)) = Some backend
   \<and> textContent (doc (completeInterview (selectRole backend app0))) ''questions-completed''
       = ''1/4''
   \<and> (104000::nat) \<le> 104000
   \<and> textContent (doc (run (to_interview @ [ClickStartStop, Wait 104000]) app0))
        ''questions-completed'' = ''4/4''"
proof -
  have h: "has ''questions-completed'' (selectRole backend app0)"
    "selectedRole (state (selectRole backend app0)) = Some backend"
    by (simp_all add: has_def app0_ctl full_page_has)
  have "show_nat (min (currentQuestionIndex (state (selectRole backend app0)) + 1)
                  (length (questions backend))) = ''1''"
    by (simp add: app0_ctl initial_state_def backend_questions show_nat_4)
  then show ?thesis
    using questions_completed_capped
            [where a = "selectRole backend app0" and r = backend and T = 104000
               and g = "\<lambda>n. 0" and ?t0.0 = 0] h
    by (simp add: app0_def backend_questions show_nat_4)
qed

section \<open>Stale timers and the active flag\<close>

text \<open>
  What the guards do achieve. The three timer steps of the question cycle check
  \<open>interviewActive\<close> first: run while the flag is false, each of them leaves the
  application exactly as it was, so such a timeout that fires while the session is paused
  or reset only leaves the queue. Pausing and resetting both leave the flag false. (The
  setup steps, the clock and the other timeouts have no such check.)
\<close>

lemma question_steps_check_active:
  "(c \<in> {CbQuestionSpoken, CbUserSpoke, CbResponseSpoken} \<and> \<not> interviewActive (state a) \<longrightarrow>
      run_callback i c a = a
      \<and> (find (\<lambda>t. tid t = i) (pending a)
            = Some \<lparr>tid = i, due = d, period = None, cb = c\<rparr> \<longrightarrow>
          fire i a = a\<lparr>pending := filter (\<lambda>t. tid t \<noteq> i) (pending a)\<rparr>))
   \<and> \<not> interviewActive (state (pauseInterview b))
   \<and> \<not> interviewActive (state (resetApp b))"
  by (auto simp: run_callback_def questionSpoken_def userSpoke_def responseSpoken_def
        initial_state_def fire_def)

lemma question_steps_check_active_example:
  "CbResponseSpoken \<in> {CbQuestionSpoken, CbUserSpoke, CbResponseSpoken}
   \<and> \<not> interviewActive (state app0)
   \<and> run_callback 1 CbResponseSpoken app0 = app0"
  using question_steps_check_active [of CbResponseSpoken app0 1]
  by (simp add: app0_ctl initial_state_def)

text \<open>
  The steps of the setup sequence do not look at \<open>interviewActive\<close>, and its last timeout
  is not stored in \<open>this.timers\<close>, unlike the three before it. The user uploads the file,
  presses start, clicks the logo 4.5 s later: the session is reset, the flag is false, and
  one second later the pending timeout shows the voice-interview screen.
\<close>

lemma setup_timeout_fires_after_reset:
  "state (run (to_upload @ [ClickStartInterview, Wait 4500, ClickLogo]) app0) = initial_state
   \<and> \<not> interviewActive
         (state (run (to_upload @ [ClickStartInterview, Wait 4500, ClickLogo]) app0))
   \<and> currentScreen
         (state (run (to_upload @ [ClickStartInterview, Wait 4500, ClickLogo]) app0))
       = ''role-selection''
   \<and> currentScreen
         (state (run (to_upload @ [ClickStartInterview, Wait 4500, ClickLogo, Wait 1000]) app0))
       = ''voice-interview''"
proof -
  let ?u = "run to_upload (new_app full_page (\<lambda>n. 0) 0)"
  let ?s = "advance 4500 (startInterviewSetup ?u)"
  note f = uploaded_state [of "\<lambda>n. 0" 0]
  have logo: "handle ClickLogo ?s = resetApp ?s"
    using setup_runs(7) [OF f(2)] by (simp add: has_def f full_page_has)
  have 1: "run (to_upload @ [ClickStartInterview, Wait 4500, ClickLogo]) app0 = resetApp ?s"
    unfolding app0_def run_append run_Cons run_Nil click_start handle.simps(13) logo ..
  have 2: "run (to_upload @ [ClickStartInterview, Wait 4500, ClickLogo, Wait 1000]) app0
      = advance 1000 (resetApp ?s)"
    unfolding app0_def run_append run_Cons run_Nil click_start handle.simps(13) logo ..
  have "has ''voice-interview'' ?u" "h_interview (timers ?u) \<noteq> Some (next_id ?u + 3)"
    "h_avatar (timers ?u) \<noteq> Some (next_id ?u + 3)"
    by (simp_all add: has_def f full_page_has no_timers_def)
  from reset_keeps_setup_timeout [OF f(2) this] show ?thesis
    unfolding 1 2 by (simp add: initial_state_def)
qed

section \<open>Pause and resume\<close>

lemma pause_keeps_position:
  assumes "interviewActive (state a)"
  shows "currentQuestionIndex (state (toggleInterview a)) = currentQuestionIndex (state a)"
    and "interviewDuration (state (toggleInterview a)) = interviewDuration (state a)"
    and "avatarState (state (toggleInterview a)) = ''ready''"
    and "\<not> interviewActive (state (toggleInterview a))"
  using assms by simp_all

lemma resume_resets_index:
  assumes "\<not> interviewActive (state a)"
  shows "currentQuestionIndex (state (toggleInterview a)) = 0"
    and "interviewStartTime (state (toggleInterview a)) = Some (now a)"
  using assms by simp_all

lemma pause_label:
  assumes "interviewActive (state a)" and "has ''start-stop-btn .btn-text'' a"
    and "has ''start-stop-btn'' a"
  shows "textContent (doc (toggleInterview a)) ''start-stop-btn .btn-text'' = ''Resume Interview''"
  using assms
  by (simp add: toggleInterview_def pauseInterview_def setAvatarState_def dom_ops)

lemma speaking_time_zero: "rng b = (\<lambda>n. 0) \<Longrightarrow> speaking_time b = 10000"
  using to_double_exact [of 10000] by (simp add: speaking_time_def to_double_0 random_scale_def)

lemma flowing_facts:
  assumes "flowing r k i t b"
  shows "interviewActive (state b)" and "currentQuestionIndex (state b) = i"
  using assms by (auto simp: flowing_def in_flow_def)

text \<open>
  C1. The scenario that breaks the claim, with every random number 0 (the simulated
  answer then takes 10 s and a cycle 16 s): the user starts the interview and pauses it
  when the first cycle has just ended. The pause keeps the question index 1 and the
  duration and sets the avatar to ready; pressing the button again, now labelled
  \<open>Resume Interview\<close>, runs the start branch of \<open>toggleInterview\<close>, which sets the index
  to 0: the flow continues from the first question, not from the one that was current.
\<close>

theorem resume_restarts_at_first_question:
  "currentQuestionIndex (state (run (to_interview @ [ClickStartStop, Wait 16000]) app0)) = 1
   \<and> interviewActive (state (run (to_interview @ [ClickStartStop, Wait 16000]) app0))
   \<and> currentQuestionIndex
         (state (run (to_interview @ [ClickStartStop, Wait 16000, ClickStartStop]) app0)) = 1
   \<and> interviewDuration
         (state (run (to_interview @ [ClickStartStop, Wait 16000, ClickStartStop]) app0))
       = interviewDuration (state (run (to_interview @ [ClickStartStop, Wait 16000]) app0))
   \<and> avatarState
         (state (run (to_interview @ [ClickStartStop, Wait 16000, ClickStartStop]) app0))
       = ''ready''
   \<and> \<not> interviewActive
         (state (run (to_interview @ [ClickStartStop, Wait 16000, ClickStartStop]) app0))
   \<and> textContent
         (doc (run (to_interview @ [ClickStartStop, Wait 16000, ClickStartStop]) app0))
         ''start-stop-btn .btn-text'' = ''Resume Interview''
   \<and> currentQuestionIndex
         (state (run (to_interview @ [ClickStartStop, Wait 16000, ClickStartStop,
                                      ClickStartStop]) app0)) = 0"
proof -
  let ?v = "run to_interview (new_app full_page (\<lambda>n. 0) 0)"
  let ?z0 = "toggleInterview ?v"
  let ?z1 = "advance 3000 ?z0"
  let ?z2 = "advance 10000 ?z1"
  let ?z3 = "advance 3000 ?z2"
  note v = voice_ready [of "\<lambda>n. 0" 0]
  have f0: "flowing backend CbQuestionSpoken 0 3000 ?z0"
    by (rule toggle_starts_flow) (simp_all add: v initial_state_def)
  obtain b' where b': "same_page ?z0 b'" "flowing backend CbUserSpoke 0 (speaking_time b') ?z1"
    using flowing_question(1) [OF f0] by auto
  have "rng b' = (\<lambda>n. 0)"
    using b'(1) by (simp add: same_page_def v)
  then have f1: "flowing backend CbUserSpoke 0 10000 ?z1"
    using b'(2) by (simp add: speaking_time_zero)
  have p1: "same_page ?z0 ?z1" using flowing_question(2) [OF f0] by simp
  have f2: "flowing backend CbResponseSpoken 0 3000 ?z2" and p2: "same_page ?z1 ?z2"
    using flowing_user [OF f1] by simp_all
  have f3: "flowing backend CbQuestionSpoken (0 + 1) 3000 ?z3" and p3: "same_page ?z2 ?z3"
    using flowing_response_next [OF f2] by (simp_all add: backend_questions)
  have p: "same_page ?z0 ?z3"
    using p1 p2 p3 same_page_trans by blast
  have z3: "advance 16000 ?z0 = ?z3"
    using advance_add [of 3000 13000 ?z0] advance_add [of 10000 3000 ?z1] by simp
  have "''start-stop-btn .btn-text'' \<in> set (present full_page)"
    by (simp add: full_page_def)
  then have c3: "clickable ''start-stop-btn'' ?z3" "has ''start-stop-btn .btn-text'' ?z3"
    "has ''start-stop-btn'' ?z3"
    using p by (simp_all add: clickable_def has_def same_page_def v full_page_has)
  have c4: "clickable ''start-stop-btn'' (toggleInterview ?z3)"
    using c3(1) by (simp add: clickable_def has_def)
  have r1: "run (to_interview @ [ClickStartStop, Wait 16000]) app0 = ?z3"
    unfolding app0_def run_append run_Cons run_Nil click_toggle handle.simps(13) z3 ..
  have r2: "run (to_interview @ [ClickStartStop, Wait 16000, ClickStartStop]) app0
      = toggleInterview ?z3"
    unfolding app0_def run_append run_Cons run_Nil click_toggle handle.simps(13) z3
    using c3 by simp
  have r3: "run (to_interview @ [ClickStartStop, Wait 16000, ClickStartStop, ClickStartStop]) app0
      = toggleInterview (toggleInterview ?z3)"
    unfolding app0_def run_append run_Cons run_Nil click_toggle handle.simps(13) z3
    using c3 c4 by simp
  have label: "textContent (doc (toggleInterview ?z3)) ''start-stop-btn .btn-text''
      = ''Resume Interview''"
    using flowing_facts(1) [OF f3] c3(2,3) by (rule pause_label)
  show ?thesis
    unfolding r1 r2 r3 using flowing_facts [OF f3] label by simp
qed

section \<open>Timeouts that outlive a pause or a reset\<close>

text \<open>
  The interview is started, paused 500 ms later and resumed after 2000 ms more. The pause
  clears the clock, whose handle is stored, and leaves the timeout of \<open>beginQuestionFlow\<close>
  pending; it fires 500 ms after the resume and finds the flag true.
\<close>

lemma stale_question_timeout:
  assumes "\<not> interviewActive (state a)" and "pending a = []" and "0 < next_id a"
    and "h_avatar (timers a) \<noteq> Some (next_id a + 1)"
    and "h_setup (timers a) \<noteq> Some (next_id a + 1)"
  defines "paused \<equiv> toggleInterview (advance 500 (toggleInterview a))"
  defines "resumed \<equiv> toggleInterview (advance 2000 paused)"
  shows "\<not> interviewActive (state paused)"
    and "pending paused
          = [\<lparr>tid = next_id a + 1, due = now a + 3000, period = None, cb = CbQuestionSpoken\<rparr>]"
    and "now resumed = now a + 2500"
    and "avatarState (state resumed) = ''speaking''"
    and "pending resumed
          = [\<lparr>tid = next_id a + 1, due = now a + 3000, period = None, cb = CbQuestionSpoken\<rparr>,
             \<lparr>tid = next_id a + 2, due = now a + 3500, period = Some 1000,
               cb = CbInterviewClock\<rparr>,
             \<lparr>tid = next_id a + 3, due = now a + 5500, period = None, cb = CbQuestionSpoken\<rparr>]"
    and "now (advance 500 resumed) = now a + 3000"
    and "avatarState (state (advance 500 resumed)) = ''listening''"
    and "pending (advance 500 resumed)
          = [\<lparr>tid = next_id a + 2, due = now a + 3500, period = Some 1000,
               cb = CbInterviewClock\<rparr>,
             \<lparr>tid = next_id a + 3, due = now a + 5500, period = None, cb = CbQuestionSpoken\<rparr>,
             \<lparr>tid = next_id a + 4, due = now a + 3000 + speaking_time a, period = None,
               cb = CbUserSpoke\<rparr>]"
    and "disabled (doc paused) = disabled (doc a)"
    and "disabled (doc (advance 2000 paused)) = disabled (doc a)"
    and "present (doc paused) = present (doc a)"
    and "present (doc (advance 2000 paused)) = present (doc a)"
proof -
  let ?z0 = "toggleInterview a"
  have z1: "advance 500 ?z0 = ?z0\<lparr>now := now ?z0 + 500\<rparr>"
    using assms(1,2) by (intro advance_idle) simp
  have p: "\<not> interviewActive (state paused)"
    "pending paused
          = [\<lparr>tid = next_id a + 1, due = now a + 3000, period = None, cb = CbQuestionSpoken\<rparr>]"
    "now paused = now a + 500" "next_id paused = next_id a + 2"
    "rng paused = rng a" "draws paused = draws a"
    "disabled (doc paused) = disabled (doc a)" "present (doc paused) = present (doc a)"
    unfolding paused_def z1 using assms(1-5) by (simp_all add: live_def)
  have z3: "advance 2000 paused = paused\<lparr>now := now paused + 2000\<rparr>"
    using p by (intro advance_idle) simp
  have r: "now resumed = now a + 2500" "avatarState (state resumed) = ''speaking''"
    "pending resumed
          = [\<lparr>tid = next_id a + 1, due = now a + 3000, period = None, cb = CbQuestionSpoken\<rparr>,
             \<lparr>tid = next_id a + 2, due = now a + 3500, period = Some 1000,
               cb = CbInterviewClock\<rparr>,
             \<lparr>tid = next_id a + 3, due = now a + 5500, period = None, cb = CbQuestionSpoken\<rparr>]"
    "interviewActive (state resumed)" "next_id resumed = next_id a + 4"
    "rng resumed = rng a" "draws resumed = draws a"
    unfolding resumed_def z3 using p by simp_all
  have "advance 500 resumed = run_due (resumed\<lparr>now := now resumed + 500\<rparr>)"
    using r by (intro advance_until) simp_all
  also have "\<dots> = fire (next_id a + 1) (resumed\<lparr>now := now a + 3000\<rparr>)"
    using r by (simp add: run_due_def add.commute)
  also have "\<dots> = questionSpoken (resumed\<lparr>now := now a + 3000,
      pending := [\<lparr>tid = next_id a + 2, due = now a + 3500, period = Some 1000,
               cb = CbInterviewClock\<rparr>,
             \<lparr>tid = next_id a + 3, due = now a + 5500, period = None,
               cb = CbQuestionSpoken\<rparr>]\<rparr>)"
    using r by (simp add: fire_def run_callback_def)
  finally have f: "advance 500 resumed = questionSpoken (resumed\<lparr>now := now a + 3000,
      pending := [\<lparr>tid = next_id a + 2, due = now a + 3500, period = Some 1000,
               cb = CbInterviewClock\<rparr>,
             \<lparr>tid = next_id a + 3, due = now a + 5500, period = None,
               cb = CbQuestionSpoken\<rparr>]\<rparr>)" .
  show "\<not> interviewActive (state paused)"
    and "pending paused
          = [\<lparr>tid = next_id a + 1, due = now a + 3000, period = None, cb = CbQuestionSpoken\<rparr>]"
    and "disabled (doc paused) = disabled (doc a)" and "present (doc paused) = present (doc a)"
    using p by simp_all
  show "disabled (doc (advance 2000 paused)) = disabled (doc a)"
    and "present (doc (advance 2000 paused)) = present (doc a)"
    unfolding z3 using p by simp_all
  show "now resumed = now a + 2500" and "avatarState (state resumed) = ''speaking''"
    and "pending resumed
          = [\<lparr>tid = next_id a + 1, due = now a + 3000, period = None, cb = CbQuestionSpoken\<rparr>,
             \<lparr>tid = next_id a + 2, due = now a + 3500, period = Some 1000,
               cb = CbInterviewClock\<rparr>,
             \<lparr>tid = next_id a + 3, due = now a + 5500, period = None, cb = CbQuestionSpoken\<rparr>]"
    using r by simp_all
  show "now (advance 500 resumed) = now a + 3000"
    and "avatarState (state (advance 500 resumed)) = ''listening''"
    and "pending (advance 500 resumed)
          = [\<lparr>tid = next_id a + 2, due = now a + 3500, period = Some 1000,
               cb = CbInterviewClock\<rparr>,
             \<lparr>tid = next_id a + 3, due = now a + 5500, period = None, cb = CbQuestionSpoken\<rparr>,
             \<lparr>tid = next_id a + 4, due = now a + 3000 + speaking_time a, period = None,
               cb = CbUserSpoke\<rparr>]"
    unfolding f using r by (simp_all add: speaking_time_def)
qed

text \<open>
  C3. The claim fails. The steps of the question cycle do test \<open>interviewActive\<close>, but the
  flag does not tell a timeout of the paused cycle from one of the current cycle, and
  \<open>pauseInterview\<close> and \<open>resetApp\<close> cancel only the handles stored in \<open>this.timers\<close>, which
  the timeouts of the cycle and the last timeout of the setup sequence are not. With every
  random number 0: the user starts the interview (at 9800 ms), pauses it 500 ms later and
  resumes it after 2000 ms more. The timeout set before the pause (handle 9, due at 12800)
  is pending while the session is paused and still after it is resumed; it fires 500 ms
  after the resume, finds the flag true again, sets the avatar from speaking to listening
  and schedules the next step of the flow (handle 12), while the question timeout of the
  resumed cycle (handle 11) is due only at 15300. And a reset during the setup sequence
  leaves its last timeout pending: one second after the reset, with the flag false, it
  shows the voice-interview screen.
\<close>

theorem stale_timeouts_act_after_pause_and_reset:
  "\<not> interviewActive (state (run to_pause app0))
   \<and> pending (run to_pause app0)
       = [\<lparr>tid = 9, due = 12800, period = None, cb = CbQuestionSpoken\<rparr>]
   \<and> now (run to_resume app0) = 12300
   \<and> avatarState (state (run to_resume app0)) = ''speaking''
   \<and> pending (run to_resume app0)
       = [\<lparr>tid = 9, due = 12800, period = None, cb = CbQuestionSpoken\<rparr>,
          \<lparr>tid = 10, due = 13300, period = Some 1000, cb = CbInterviewClock\<rparr>,
          \<lparr>tid = 11, due = 15300, period = None, cb = CbQuestionSpoken\<rparr>]
   \<and> now (run (to_resume @ [Wait 500]) app0) = 12800
   \<and> avatarState (state (run (to_resume @ [Wait 500]) app0)) = ''listening''
   \<and> pending (run (to_resume @ [Wait 500]) app0)
       = [\<lparr>tid = 10, due = 13300, period = Some 1000, cb = CbInterviewClock\<rparr>,
          \<lparr>tid = 11, due = 15300, period = None, cb = CbQuestionSpoken\<rparr>,
          \<lparr>tid = 12, due = 22800, period = None, cb = CbUserSpoke\<rparr>]
   \<and> \<not> interviewActive
         (state (run (to_upload @ [ClickStartInterview, Wait 4500, ClickLogo]) app0))
   \<and> currentScreen
         (state (run (to_upload @ [ClickStartInterview, Wait 4500, ClickLogo]) app0))
       = ''role-selection''
   \<and> currentScreen
         (state (run (to_upload @ [ClickStartInterview, Wait 4500, ClickLogo, Wait 1000]) app0))
       = ''voice-interview''"
proof -
  let ?v = "run to_interview (new_app full_page (\<lambda>n. 0) 0)"
  define P where "P = toggleInterview (advance 500 (toggleInterview ?v))"
  define R where "R = toggleInterview (advance 2000 P)"
  define F where "F = advance 500 R"
  note v = voice_ready [of "\<lambda>n. 0" 0]
  have pre: "\<not> interviewActive (state ?v)" "pending ?v = []" "0 < next_id ?v"
    "h_avatar (timers ?v) \<noteq> Some (next_id ?v + 1)"
    "h_setup (timers ?v) \<noteq> Some (next_id ?v + 1)"
    by (simp_all add: v initial_state_def no_timers_def)
  note s = stale_question_timeout [OF pre, folded P_def, folded R_def, folded F_def]
  have i: "advance 500 (toggleInterview ?v) = (toggleInterview ?v)\<lparr>now := now ?v + 500\<rparr>"
    using pre(1,2) advance_idle [of "toggleInterview ?v" 500] by simp
  have c1: "clickable ''start-stop-btn'' (advance 500 (toggleInterview ?v))"
    unfolding i by (simp add: clickable_def has_def v full_page_has)
  have c2: "clickable ''start-stop-btn'' (advance 2000 P)"
    using s(10,12) by (simp add: clickable_def has_def v full_page_has)
  have r1: "run to_pause app0 = P"
    unfolding to_pause_def app0_def run_append run_Cons run_Nil click_toggle handle.simps(13) P_def
    using c1 by simp
  have r2: "run to_resume app0 = R"
    unfolding to_resume_def run_append run_Cons run_Nil r1 handle.simps(13) R_def
    using c2 by simp
  have r3: "run (to_resume @ [Wait 500]) app0 = F"
    unfolding run_append run_Cons run_Nil r2 handle.simps(13) F_def ..
  have "rng ?v = (\<lambda>n. 0)"
    by (simp add: v)
  then have sp: "speaking_time ?v = 10000"
    by (rule speaking_time_zero)
  show ?thesis
    unfolding r1 r2 r3 using s(1-8) setup_timeout_fires_after_reset
    by (simp add: v sp initial_state_def)
qed

section \<open>Errors in succession\<close>

lemma rejected_files:
  "\<not> isValidType resume_exe" "isValidType large_pdf" "maxSize < file_size large_pdf"
  by (simp_all add: isValidType_def validTypes_def endsWith_def toLowerCase_def lower_char_def
        resume_exe_def large_pdf_def maxSize_def)

text \<open>
  C8. The claim fails for errors in succession. \<open>showError\<close> sets a new timeout at every
  call and never cancels the one of an earlier call, although its comment promises to hide
  the message after 5 seconds. The user picks the Backend role and, on the upload screen,
  chooses a file of the wrong type and 4 s later a file that is too large. The banner then
  shows the size message, the most recent one; 1000 ms later, not 5000, and with no action
  of the user, the timeout of the first call hides it, while the timeout of the second
  call is still pending.
\<close>

theorem later_error_hidden_early:
  "textContent (doc (run two_errors app0)) ''error-message''
     = ''File size must be less than 10MB''
   \<and> ''hidden'' \<notin> set (classes (doc (run two_errors app0)) ''error-toast'')
   \<and> now (run two_errors app0) = 4800
   \<and> pending (run two_errors app0)
       = [\<lparr>tid = 2, due = 5800, period = None, cb = CbHideError\<rparr>,
          \<lparr>tid = 3, due = 9800, period = None, cb = CbHideError\<rparr>]
   \<and> now (run (two_errors @ [Wait 1000]) app0) = 5800
   \<and> ''hidden'' \<in> set (classes (doc (run (two_errors @ [Wait 1000]) app0)) ''error-toast'')
   \<and> pending (run (two_errors @ [Wait 1000]) app0)
       = [\<lparr>tid = 3, due = 9800, period = None, cb = CbHideError\<rparr>]"
proof -
  let ?a0 = "new_app full_page (\<lambda>n. 0) 0"
  let ?c = "advance 800 (selectRole backend ?a0)"
  let ?m1 = "''Please upload a PDF or DOCX file''"
  let ?m2 = "''File size must be less than 10MB''"
  let ?e1 = "showError ?m1 ?c"
  let ?b = "showError ?m2 (advance 4000 ?e1)"
  have c: "?c = showScreen ''resume-upload''
                   ((selectRole backend ?a0)\<lparr>now := now ?a0 + 800, pending := []\<rparr>)"
    by (rule selectRole_then_wait) simp
  have f: "pending ?c = []" "next_id ?c = 2" "now ?c = 800"
    "present (doc ?c) = present full_page"
    unfolding c by (simp_all add: has_def full_page_has)
  have "''error-toast'' \<in> set (present full_page)" "''error-message'' \<in> set (present full_page)"
    by (simp_all add: full_page_def)
  then have h: "upload_bound ?c" "has ''error-toast'' ?c" "has ''error-message'' ?c"
    by (simp_all add: upload_bound_def has_def f full_page_has)
  have w: "advance 4000 ?e1 = ?e1\<lparr>now := now ?c + 4000\<rparr>"
    using showError_then_wait(1) [OF f(1), of 4000 ?m1] by simp
  have h': "upload_bound (advance 4000 ?e1)" "has ''error-toast'' (advance 4000 ?e1)"
    "has ''error-message'' (advance 4000 ?e1)"
    unfolding w using h by (simp_all add: upload_bound_def)
  have 1: "handle (ChooseFiles [resume_exe]) ?c = ?e1"
    using h(1) rejected_files by (simp add: handleFileUpload_def)
  have 2: "handle (ChooseFiles [large_pdf]) (advance 4000 ?e1) = ?b"
    using h'(1) rejected_files by (simp add: handleFileUpload_def)
  have r1: "run two_errors app0 = ?b"
    unfolding two_errors_def app0_def run_Cons run_Nil click_backend_new handle.simps(13) 1 2 ..
  have r2: "run (two_errors @ [Wait 1000]) app0 = advance (5000 - 4000) ?b"
    unfolding run_append run_Cons run_Nil r1 handle.simps(13) by simp
  note cut = later_error_cut_short [OF f(1) h(2), of 4000 ?m2 ?m1]
  have shown: "textContent (doc ?b) ''error-message'' = ?m2"
    "''hidden'' \<notin> set (classes (doc ?b) ''error-toast'')"
    using h' by (simp_all add: showError_doc)
  have q: "now ?b = 4800"
    "pending ?b = [\<lparr>tid = 2, due = 5800, period = None, cb = CbHideError\<rparr>,
          \<lparr>tid = 3, due = 9800, period = None, cb = CbHideError\<rparr>]"
    unfolding w by (simp_all add: f)
  show ?thesis
    unfolding r1 r2 using shown q cut by (simp add: f)
qed

section \<open>The avatar state\<close>

lemma avatar_ok_upd [simp]:
  "avatar_ok (a\<lparr>pending := ts\<rparr>) = avatar_ok a" "avatar_ok (a\<lparr>now := n\<rparr>) = avatar_ok a"
  by (simp_all add: avatar_ok_def)

lemma avatar_ok_methods:
  assumes "avatar_ok a"
  shows "avatar_ok (selectRole r a)" "avatar_ok (handleFileUpload f a)" "avatar_ok (removeFile a)"
    "avatar_ok (startInterviewSetup a)" "avatar_ok (toggleInterview a)" "avatar_ok (toggleMute a)"
    "avatar_ok (endInterview a)" "avatar_ok (resetApp a)" "avatar_ok (hideError a)"
    "avatar_ok (showScreen s a)"
  using assms by (simp_all add: avatar_ok_def initial_state_def)

lemma avatar_ok_callback:
  assumes "avatar_ok a"
  shows "avatar_ok (run_callback i c a)"
  using assms by (cases c) (simp_all add: run_callback_def avatar_ok_def)

lemma avatar_ok_fire: "avatar_ok a \<Longrightarrow> avatar_ok (fire i a)"
  by (auto simp: fire_def intro!: avatar_ok_callback split: option.splits)

lemma avatar_ok_foldl_fire: "avatar_ok a \<Longrightarrow> avatar_ok (foldl (\<lambda>x i. fire i x) a is)"
  by (induction "is" arbitrary: a) (simp_all add: avatar_ok_fire)

lemma avatar_ok_tick: "avatar_ok a \<Longrightarrow> avatar_ok (tick a)"
  by (simp add: tick_def run_due_def avatar_ok_foldl_fire)

lemma avatar_ok_advance: "avatar_ok a \<Longrightarrow> avatar_ok (advance n a)"
  by (induction n arbitrary: a) (simp_all add: avatar_ok_tick)

lemma avatar_ok_handle: "avatar_ok a \<Longrightarrow> avatar_ok (handle act a)"
  by (cases act) (auto simp: avatar_ok_methods avatar_ok_advance split: option.splits list.splits)

lemma avatar_ok_run: "avatar_ok a \<Longrightarrow> avatar_ok (run acts a)"
  unfolding run_def by (induction acts arbitrary: a) (simp_all add: avatar_ok_handle)

text \<open>
  C9. \<open>avatarState\<close> starts as \<open>ready\<close>; every method of the controller, every timer
  function and every user event keeps it among \<open>ready\<close>, \<open>listening\<close>, \<open>speaking\<close>, since
  \<open>setAvatarState\<close> is only ever called with one of the three literals. So it is one of
  the three after any sequence of events on any page, whatever the random numbers.
\<close>

theorem avatar_state_invariant:
  "avatar_ok (new_app d g t0)
   \<and> (avatar_ok a \<longrightarrow>
        avatar_ok (handle act a) \<and> avatar_ok (run_callback i c a) \<and> avatar_ok (advance n a))
   \<and> avatar_ok (run acts (new_app d g t0))"
proof -
  have "avatar_ok (new_app d g t0)"
    by (simp add: avatar_ok_def initial_state_def)
  then show ?thesis
    by (simp add: avatar_ok_handle avatar_ok_callback avatar_ok_advance avatar_ok_run)
qed

theorem avatar_state_invariant_witness:
  "avatar_ok app0
   \<and> avatar_ok (handle ClickStartStop app0)
   \<and> avatarState (state (handle ClickStartStop app0)) = ''speaking''
   \<and> avatar_ok (run (to_interview @ [ClickStartStop, Wait 16000, ClickStartStop]) app0)"
proof -
  have "clickable ''start-stop-btn'' app0"
    by (simp add: clickable_def has_def app0_ctl full_page_has full_page_flags)
  then have "avatarState (state (handle ClickStartStop app0)) = ''speaking''"
    by (simp add: app0_ctl initial_state_def)
  then show ?thesis
    using avatar_state_invariant
            [where d = full_page and g = "\<lambda>n. 0" and ?t0.0 = 0 and a = app0
               and act = ClickStartStop
               and acts = "to_interview @ [ClickStartStop, Wait 16000, ClickStartStop]"]
    by (simp add: app0_def)
qed

end
